theory Spec2Isabelle
  imports Main "HOL-Library.Sublist" "HOL-Library.Multiset"
begin

section \<open>Go library functions used by the aggregator\<close>

text \<open>
  Strings are byte lists, as in Go, and a rune is the number of its code point.
  \<open>utf8.DecodeRuneInString\<close> reads the first rune of a string and its width in bytes,
  with the table \<open>first\<close> for the leading byte and \<open>acceptRanges\<close> for the second byte.
  A byte that does not begin a well-formed sequence (a sequence in shortest form, no
  surrogate, at most \<open>U+10FFFF\<close>) is read as \<open>RuneError\<close>, with width 1. The masks and
  shifts of the source are written with \<open>mod\<close>, \<open>*\<close> and \<open>+\<close>.
\<close>

definition RuneError :: nat where
  "RuneError = 0xFFFD"

definition RuneSelf :: nat where
  "RuneSelf = 0x80"

definition byteAt :: "string \<Rightarrow> nat \<Rightarrow> nat" where
  "byteAt s i = of_char (s ! i)"

definition first :: "nat \<Rightarrow> nat" where
  "first b =
     (if b < 0x80 then 0xF0
      else if b < 0xC2 then 0xF1
      else if b < 0xE0 then 0x02
      else if b = 0xE0 then 0x13
      else if b < 0xED then 0x03
      else if b = 0xED then 0x23
      else if b < 0xF0 then 0x03
      else if b = 0xF0 then 0x34
      else if b < 0xF4 then 0x04
      else if b = 0xF4 then 0x44
      else 0xF1)"

definition acceptRanges :: "nat \<Rightarrow> nat \<times> nat" where
  "acceptRanges i = [(0x80, 0xBF), (0xA0, 0xBF), (0x80, 0x9F), (0x90, 0xBF), (0x80, 0x8F)] ! i"

definition DecodeRuneInString :: "string \<Rightarrow> nat \<times> nat" where
  "DecodeRuneInString s =
     (if length s < 1 then (RuneError, 0)
      else if 0xF0 \<le> first (byteAt s 0)
      then (if first (byteAt s 0) = 0xF0 then byteAt s 0 else RuneError, 1)
      else if length s < first (byteAt s 0) mod 8 then (RuneError, 1)
      else if byteAt s 1 < fst (acceptRanges (first (byteAt s 0) div 16)) \<or>
              snd (acceptRanges (first (byteAt s 0) div 16)) < byteAt s 1
      then (RuneError, 1)
      else if first (byteAt s 0) mod 8 \<le> 2
      then (byteAt s 0 mod 32 * 64 + byteAt s 1 mod 64, 2)
      else if byteAt s 2 < 0x80 \<or> 0xBF < byteAt s 2 then (RuneError, 1)
      else if first (byteAt s 0) mod 8 \<le> 3
      then (byteAt s 0 mod 16 * 4096 + byteAt s 1 mod 64 * 64 + byteAt s 2 mod 64, 3)
      else if byteAt s 3 < 0x80 \<or> 0xBF < byteAt s 3 then (RuneError, 1)
      else (byteAt s 0 mod 8 * 262144 + byteAt s 1 mod 64 * 4096 + byteAt s 2 mod 64 * 64 +
            byteAt s 3 mod 64, 4))"

text \<open>
  \<open>utf8.AppendRune\<close>, the bytes that \<open>strings.Builder.WriteRune\<close> writes for a rune: one
  to four bytes, and the three bytes of \<open>RuneError\<close> for a surrogate or a number beyond
  \<open>U+10FFFF\<close>.
\<close>

definition encode3 :: "nat \<Rightarrow> string" where
  "encode3 r =
     [char_of (0xE0 + r div 4096), char_of (0x80 + r div 64 mod 64), char_of (0x80 + r mod 64)]"

definition AppendRune :: "nat \<Rightarrow> string" where
  "AppendRune r =
     (if r \<le> 0x7F then [char_of r]
      else if r \<le> 0x7FF then [char_of (0xC0 + r div 64), char_of (0x80 + r mod 64)]
      else if 0x10FFFF < r \<or> (0xD800 \<le> r \<and> r \<le> 0xDFFF) then encode3 RuneError
      else if r \<le> 0xFFFF then encode3 r
      else [char_of (0xF0 + r div 262144), char_of (0x80 + r div 4096 mod 64),
            char_of (0x80 + r div 64 mod 64), char_of (0x80 + r mod 64)])"

text \<open>
  \<open>unicode.ToLower\<close>: the letters \<open>A\<close> to \<open>Z\<close> below \<open>U+0080\<close>, and beyond it the
  lower-case column of \<open>unicode.CaseRanges\<close> (the simple lower-case mapping of the Unicode
  Character Database, version 15.0.0). An entry \<open>(lo, hi, step, to)\<close> of
  \<open>lowerCaseRanges\<close> stands for the runes \<open>lo\<close>, \<open>lo + step\<close>, ... up to \<open>hi\<close>, the rune
  \<open>lo + d\<close> having the lower case \<open>to + d\<close>; a rune in no entry is its own lower case.
\<close>

definition lowerCaseRanges :: "(nat \<times> nat \<times> nat \<times> nat) list" where
  "lowerCaseRanges =
     [(0xC0, 0xD6, 1, 0xE0), (0xD8, 0xDE, 1, 0xF8), (0x100, 0x12E, 2, 0x101),
      (0x130, 0x130, 1, 0x69), (0x132, 0x136, 2, 0x133), (0x139, 0x147, 2, 0x13A),
      (0x14A, 0x176, 2, 0x14B), (0x178, 0x178, 1, 0xFF), (0x179, 0x17D, 2, 0x17A),
      (0x181, 0x181, 1, 0x253), (0x182, 0x184, 2, 0x183), (0x186, 0x186, 1, 0x254),
      (0x187, 0x187, 1, 0x188), (0x189, 0x18A, 1, 0x256), (0x18B, 0x18B, 1, 0x18C),
      (0x18E, 0x18E, 1, 0x1DD), (0x18F, 0x18F, 1, 0x259), (0x190, 0x190, 1, 0x25B),
      (0x191, 0x191, 1, 0x192), (0x193, 0x193, 1, 0x260), (0x194, 0x194, 1, 0x263),
      (0x196, 0x196, 1, 0x269), (0x197, 0x197, 1, 0x268), (0x198, 0x198, 1, 0x199),
      (0x19C, 0x19C, 1, 0x26F), (0x19D, 0x19D, 1, 0x272), (0x19F, 0x19F, 1, 0x275),
      (0x1A0, 0x1A4, 2, 0x1A1), (0x1A6, 0x1A6, 1, 0x280), (0x1A7, 0x1A7, 1, 0x1A8),
      (0x1A9, 0x1A9, 1, 0x283), (0x1AC, 0x1AC, 1, 0x1AD), (0x1AE, 0x1AE, 1, 0x288),
      (0x1AF, 0x1AF, 1, 0x1B0), (0x1B1, 0x1B2, 1, 0x28A), (0x1B3, 0x1B5, 2, 0x1B4),
      (0x1B7, 0x1B7, 1, 0x292), (0x1B8, 0x1B8, 1, 0x1B9), (0x1BC, 0x1BC, 1, 0x1BD),
      (0x1C4, 0x1C4, 1, 0x1C6), (0x1C5, 0x1C5, 1, 0x1C6), (0x1C7, 0x1C7, 1, 0x1C9),
      (0x1C8, 0x1C8, 1, 0x1C9), (0x1CA, 0x1CA, 1, 0x1CC), (0x1CB, 0x1DB, 2, 0x1CC),
      (0x1DE, 0x1EE, 2, 0x1DF), (0x1F1, 0x1F1, 1, 0x1F3), (0x1F2, 0x1F4, 2, 0x1F3),
      (0x1F6, 0x1F6, 1, 0x195), (0x1F7, 0x1F7, 1, 0x1BF), (0x1F8, 0x21E, 2, 0x1F9),
      (0x220, 0x220, 1, 0x19E), (0x222, 0x232, 2, 0x223), (0x23A, 0x23A, 1, 0x2C65),
      (0x23B, 0x23B, 1, 0x23C), (0x23D, 0x23D, 1, 0x19A), (0x23E, 0x23E, 1, 0x2C66),
      (0x241, 0x241, 1, 0x242), (0x243, 0x243, 1, 0x180), (0x244, 0x244, 1, 0x289),
      (0x245, 0x245, 1, 0x28C), (0x246, 0x24E, 2, 0x247), (0x370, 0x372, 2, 0x371),
      (0x376, 0x376, 1, 0x377), (0x37F, 0x37F, 1, 0x3F3), (0x386, 0x386, 1, 0x3AC),
      (0x388, 0x38A, 1, 0x3AD), (0x38C, 0x38C, 1, 0x3CC), (0x38E, 0x38F, 1, 0x3CD),
      (0x391, 0x3A1, 1, 0x3B1), (0x3A3, 0x3AB, 1, 0x3C3), (0x3CF, 0x3CF, 1, 0x3D7),
      (0x3D8, 0x3EE, 2, 0x3D9), (0x3F4, 0x3F4, 1, 0x3B8), (0x3F7, 0x3F7, 1, 0x3F8),
      (0x3F9, 0x3F9, 1, 0x3F2), (0x3FA, 0x3FA, 1, 0x3FB), (0x3FD, 0x3FF, 1, 0x37B),
      (0x400, 0x40F, 1, 0x450), (0x410, 0x42F, 1, 0x430), (0x460, 0x480, 2, 0x461),
      (0x48A, 0x4BE, 2, 0x48B), (0x4C0, 0x4C0, 1, 0x4CF), (0x4C1, 0x4CD, 2, 0x4C2),
      (0x4D0, 0x52E, 2, 0x4D1), (0x531, 0x556, 1, 0x561), (0x10A0, 0x10C5, 1, 0x2D00),
      (0x10C7, 0x10C7, 1, 0x2D27), (0x10CD, 0x10CD, 1, 0x2D2D), (0x13A0, 0x13EF, 1, 0xAB70),
      (0x13F0, 0x13F5, 1, 0x13F8), (0x1C90, 0x1CBA, 1, 0x10D0), (0x1CBD, 0x1CBF, 1, 0x10FD),
      (0x1E00, 0x1E94, 2, 0x1E01), (0x1E9E, 0x1E9E, 1, 0xDF), (0x1EA0, 0x1EFE, 2, 0x1EA1),
      (0x1F08, 0x1F0F, 1, 0x1F00), (0x1F18, 0x1F1D, 1, 0x1F10), (0x1F28, 0x1F2F, 1, 0x1F20),
      (0x1F38, 0x1F3F, 1, 0x1F30), (0x1F48, 0x1F4D, 1, 0x1F40), (0x1F59, 0x1F5F, 2, 0x1F51),
      (0x1F68, 0x1F6F, 1, 0x1F60), (0x1F88, 0x1F8F, 1, 0x1F80), (0x1F98, 0x1F9F, 1, 0x1F90),
      (0x1FA8, 0x1FAF, 1, 0x1FA0), (0x1FB8, 0x1FB9, 1, 0x1FB0), (0x1FBA, 0x1FBB, 1, 0x1F70),
      (0x1FBC, 0x1FBC, 1, 0x1FB3), (0x1FC8, 0x1FCB, 1, 0x1F72), (0x1FCC, 0x1FCC, 1, 0x1FC3),
      (0x1FD8, 0x1FD9, 1, 0x1FD0), (0x1FDA, 0x1FDB, 1, 0x1F76), (0x1FE8, 0x1FE9, 1, 0x1FE0),
      (0x1FEA, 0x1FEB, 1, 0x1F7A), (0x1FEC, 0x1FEC, 1, 0x1FE5), (0x1FF8, 0x1FF9, 1, 0x1F78),
      (0x1FFA, 0x1FFB, 1, 0x1F7C), (0x1FFC, 0x1FFC, 1, 0x1FF3), (0x2126, 0x2126, 1, 0x3C9),
      (0x212A, 0x212A, 1, 0x6B), (0x212B, 0x212B, 1, 0xE5), (0x2132, 0x2132, 1, 0x214E),
      (0x2160, 0x216F, 1, 0x2170), (0x2183, 0x2183, 1, 0x2184), (0x24B6, 0x24CF, 1, 0x24D0),
      (0x2C00, 0x2C2F, 1, 0x2C30), (0x2C60, 0x2C60, 1, 0x2C61), (0x2C62, 0x2C62, 1, 0x26B),
      (0x2C63, 0x2C63, 1, 0x1D7D), (0x2C64, 0x2C64, 1, 0x27D), (0x2C67, 0x2C6B, 2, 0x2C68),
      (0x2C6D, 0x2C6D, 1, 0x251), (0x2C6E, 0x2C6E, 1, 0x271), (0x2C6F, 0x2C6F, 1, 0x250),
      (0x2C70, 0x2C70, 1, 0x252), (0x2C72, 0x2C72, 1, 0x2C73), (0x2C75, 0x2C75, 1, 0x2C76),
      (0x2C7E, 0x2C7F, 1, 0x23F), (0x2C80, 0x2CE2, 2, 0x2C81), (0x2CEB, 0x2CED, 2, 0x2CEC),
      (0x2CF2, 0x2CF2, 1, 0x2CF3), (0xA640, 0xA66C, 2, 0xA641), (0xA680, 0xA69A, 2, 0xA681),
      (0xA722, 0xA72E, 2, 0xA723), (0xA732, 0xA76E, 2, 0xA733), (0xA779, 0xA77B, 2, 0xA77A),
      (0xA77D, 0xA77D, 1, 0x1D79), (0xA77E, 0xA786, 2, 0xA77F), (0xA78B, 0xA78B, 1, 0xA78C),
      (0xA78D, 0xA78D, 1, 0x265), (0xA790, 0xA792, 2, 0xA791), (0xA796, 0xA7A8, 2, 0xA797),
      (0xA7AA, 0xA7AA, 1, 0x266), (0xA7AB, 0xA7AB, 1, 0x25C), (0xA7AC, 0xA7AC, 1, 0x261),
      (0xA7AD, 0xA7AD, 1, 0x26C), (0xA7AE, 0xA7AE, 1, 0x26A), (0xA7B0, 0xA7B0, 1, 0x29E),
      (0xA7B1, 0xA7B1, 1, 0x287), (0xA7B2, 0xA7B2, 1, 0x29D), (0xA7B3, 0xA7B3, 1, 0xAB53),
      (0xA7B4, 0xA7C2, 2, 0xA7B5), (0xA7C4, 0xA7C4, 1, 0xA794), (0xA7C5, 0xA7C5, 1, 0x282),
      (0xA7C6, 0xA7C6, 1, 0x1D8E), (0xA7C7, 0xA7C9, 2, 0xA7C8), (0xA7D0, 0xA7D0, 1, 0xA7D1),
      (0xA7D6, 0xA7D8, 2, 0xA7D7), (0xA7F5, 0xA7F5, 1, 0xA7F6), (0xFF21, 0xFF3A, 1, 0xFF41),
      (0x10400, 0x10427, 1, 0x10428), (0x104B0, 0x104D3, 1, 0x104D8),
      (0x10570, 0x1057A, 1, 0x10597), (0x1057C, 0x1058A, 1, 0x105A3),
      (0x1058C, 0x10592, 1, 0x105B3), (0x10594, 0x10595, 1, 0x105BB),
      (0x10C80, 0x10CB2, 1, 0x10CC0), (0x118A0, 0x118BF, 1, 0x118C0),
      (0x16E40, 0x16E5F, 1, 0x16E60), (0x1E900, 0x1E921, 1, 0x1E922)]"

definition inRange :: "nat \<Rightarrow> nat \<times> nat \<times> nat \<times> nat \<Rightarrow> bool" where
  "inRange r e =
     (case e of (lo, hi, step, to) \<Rightarrow> lo \<le> r \<and> r \<le> hi \<and> (r - lo) mod step = 0)"

definition unicode_ToLower :: "nat \<Rightarrow> nat" where
  "unicode_ToLower r =
     (if r \<le> 0x7F then (if 0x41 \<le> r \<and> r \<le> 0x5A then r + 0x20 else r)
      else case find (inRange r) lowerCaseRanges of
             None \<Rightarrow> r
           | Some (lo, hi, step, to) \<Rightarrow> to + (r - lo))"

text \<open>
  \<open>strings.Map mapping s\<close>. The first loop of the source reads the runes of \<open>s\<close>, as
  the \<open>range\<close> loop over a string reads them, up to the first rune that the mapping
  changes or that stands for an ill-formed byte; the bytes in front of that rune are
  kept as they are, and \<open>s\<close> itself is returned when there is no such rune. The second
  loop, \<open>mapRunes\<close>, writes the image of each remaining rune. (A negative image, which
  drops the rune, does not occur with \<open>unicode.ToLower\<close>.)
\<close>

function mapRunes :: "(nat \<Rightarrow> nat) \<Rightarrow> string \<Rightarrow> string" where
  "mapRunes mapping [] = []"
| "mapRunes mapping (c # cs) =
     AppendRune (mapping (fst (DecodeRuneInString (c # cs)))) @
     mapRunes mapping (drop (snd (DecodeRuneInString (c # cs))) (c # cs))"
  by pat_completeness auto
termination
  by (relation "measure (\<lambda>(mapping, s). length s)") (auto simp: DecodeRuneInString_def)

function strings_Map :: "(nat \<Rightarrow> nat) \<Rightarrow> string \<Rightarrow> string" where
  "strings_Map mapping [] = []"
| "strings_Map mapping (c # cs) =
     (if mapping (fst (DecodeRuneInString (c # cs))) = fst (DecodeRuneInString (c # cs)) \<and>
         \<not> (fst (DecodeRuneInString (c # cs)) = RuneError \<and>
            snd (DecodeRuneInString (c # cs)) = 1)
      then take (snd (DecodeRuneInString (c # cs))) (c # cs) @
           strings_Map mapping (drop (snd (DecodeRuneInString (c # cs))) (c # cs))
      else AppendRune (mapping (fst (DecodeRuneInString (c # cs)))) @
           mapRunes mapping (drop (snd (DecodeRuneInString (c # cs))) (c # cs)))"
  by pat_completeness auto
termination
  by (relation "measure (\<lambda>(mapping, s). length s)") (auto simp: DecodeRuneInString_def)

text \<open>
  \<open>strings.ToLower\<close>. A string of bytes below \<open>0x80\<close> is treated byte by byte: it is
  returned as it is when it has no letter \<open>A\<close> to \<open>Z\<close>, and otherwise each of these
  letters is replaced by its lower case (\<open>toLowerByte\<close>, the statement
  \<open>c += 'a' - 'A'\<close>). Any other string goes through \<open>strings.Map\<close> with
  \<open>unicode.ToLower\<close>, which also rewrites each ill-formed byte to the three bytes of
  \<open>U+FFFD\<close>.
\<close>

definition toLowerByte :: "char \<Rightarrow> char" where
  "toLowerByte c =
     (if (0x41 :: nat) \<le> of_char c \<and> of_char c \<le> (0x5A :: nat)
      then char_of (of_char c + (0x20 :: nat))
      else c)"

definition isASCII :: "string \<Rightarrow> bool" where
  "isASCII s = list_all (\<lambda>c. of_char c < RuneSelf) s"

definition hasUpper :: "string \<Rightarrow> bool" where
  "hasUpper s = list_ex (\<lambda>c. (0x41 :: nat) \<le> of_char c \<and> of_char c \<le> (0x5A :: nat)) s"

definition ToLower :: "string \<Rightarrow> string" where
  "ToLower s =
     (if isASCII s then (if \<not> hasUpper s then s else map toLowerByte s)
      else strings_Map unicode_ToLower s)"

text \<open>
  \<open>strings.ReplaceAll s old new\<close>: the non-overlapping occurrences of \<open>old\<close> are
  replaced from left to right. With an empty \<open>old\<close> Go puts \<open>new\<close> in front of the
  string and after every rune of it, an ill-formed byte counting as one rune.
\<close>

function afterEachRune :: "string \<Rightarrow> string \<Rightarrow> string" where
  "afterEachRune new [] = []"
| "afterEachRune new (c # cs) =
     take (snd (DecodeRuneInString (c # cs))) (c # cs) @ new @
     afterEachRune new (drop (snd (DecodeRuneInString (c # cs))) (c # cs))"
  by pat_completeness auto
termination
  by (relation "measure (\<lambda>(new, s). length s)") (auto simp: DecodeRuneInString_def)

function replaceFrom :: "string \<Rightarrow> string \<Rightarrow> string \<Rightarrow> string" where
  "replaceFrom [] old new = []"
| "replaceFrom (c # cs) old new =
     (if old = [] then c # cs
      else if take (length old) (c # cs) = old
      then new @ replaceFrom (drop (length old) (c # cs)) old new
      else c # replaceFrom cs old new)"
  by pat_completeness auto
termination
  by (relation "measure (\<lambda>(s, old, new). length s)") auto

definition ReplaceAll :: "string \<Rightarrow> string \<Rightarrow> string \<Rightarrow> string" where
  "ReplaceAll s old new =
     (if old = [] then new @ afterEachRune new s else replaceFrom s old new)"

text \<open>
  The verb \<open>%d\<close> of \<open>fmt.Sprintf\<close>: decimal digits, with a minus sign in front of a
  negative number.
\<close>

definition digit_char :: "nat \<Rightarrow> char" where
  "digit_char d = ''0123456789'' ! d"

fun digits :: "nat \<Rightarrow> string" where
  "digits n = (if n < 10 then [digit_char n] else digits (n div 10) @ [digit_char (n mod 10)])"

declare digits.simps [simp del]

definition itoa :: "int \<Rightarrow> string" where
  "itoa i = (if i < 0 then CHR ''-'' # digits (nat (- i)) else digits (nat i))"

text \<open>
  A \<open>time.Time\<close> is an instant, in nanoseconds since the Unix epoch, together with the
  offset from UTC, in seconds, that its location has at that instant. A duration is a
  number of nanoseconds. \<open>After\<close> and \<open>Before\<close> compare instants; \<open>Sub\<close> saturates at
  the ends of the 64-bit range of durations, as Go's does.
\<close>

record Time =
  unixNano :: int
  zoneOffset :: int

type_synonym Duration = int

definition Second :: Duration where
  "Second = 1000000000"

definition Hour :: Duration where
  "Hour = 3600 * Second"

definition maxDuration :: Duration where
  "maxDuration = 2 ^ 63 - 1"

definition minDuration :: Duration where
  "minDuration = - (2 ^ 63)"

definition After :: "Time \<Rightarrow> Time \<Rightarrow> bool" where
  "After t u = (unixNano u < unixNano t)"

definition Before :: "Time \<Rightarrow> Time \<Rightarrow> bool" where
  "Before t u = (unixNano t < unixNano u)"

definition Add :: "Time \<Rightarrow> Duration \<Rightarrow> Time" where
  "Add t d = t\<lparr>unixNano := unixNano t + d\<rparr>"

definition Sub :: "Time \<Rightarrow> Time \<Rightarrow> Duration" where
  "Sub t u = max minDuration (min maxDuration (unixNano t - unixNano u))"

text \<open>
  The civil date of a day number (days since 1970-01-01) in the proleptic Gregorian
  calendar, which is the calendar of Go's \<open>Time.Date\<close>.
\<close>

definition civilOfMonth :: "int \<Rightarrow> int \<Rightarrow> int \<Rightarrow> int \<Rightarrow> int \<times> int \<times> int" where
  "civilOfMonth y doy mp m = (y + (if m \<le> 2 then 1 else 0), m, doy - (153 * mp + 2) div 5 + 1)"

definition civilOfDayOfYear :: "int \<Rightarrow> int \<Rightarrow> int \<Rightarrow> int \<times> int \<times> int" where
  "civilOfDayOfYear y doy mp = civilOfMonth y doy mp (if mp < 10 then mp + 3 else mp - 9)"

definition civilOfYearOfEra :: "int \<Rightarrow> int \<Rightarrow> int \<Rightarrow> int \<times> int \<times> int" where
  "civilOfYearOfEra era doe yoe =
     civilOfDayOfYear (yoe + era * 400)
       (doe - (365 * yoe + yoe div 4 - yoe div 100))
       ((5 * (doe - (365 * yoe + yoe div 4 - yoe div 100)) + 2) div 153)"

definition civilOfEra :: "int \<Rightarrow> int \<Rightarrow> int \<times> int \<times> int" where
  "civilOfEra era doe =
     civilOfYearOfEra era doe ((doe - doe div 1460 + doe div 36524 - doe div 146096) div 365)"

definition civil :: "int \<Rightarrow> int \<times> int \<times> int" where
  "civil days =
     civilOfEra ((days + 719468) div 146097)
       ((days + 719468) - ((days + 719468) div 146097) * 146097)"

text \<open>
  \<open>appendInt\<close> of package time: the decimal digits of the absolute value, padded with
  zeros on the left to the given width, after a minus sign for a negative number.
\<close>

definition appendInt :: "int \<Rightarrow> nat \<Rightarrow> string" where
  "appendInt x width =
     (let ds = digits (nat \<bar>x\<bar>)
      in (if x < 0 then ''-'' else '''') @ replicate (width - length ds) CHR ''0'' @ ds)"

text \<open>\<open>t.Format("20060102")\<close>: year, month and day of the instant in the time's location.\<close>

definition Format_20060102 :: "Time \<Rightarrow> string" where
  "Format_20060102 t =
     (case civil ((unixNano t div 1000000000 + zoneOffset t) div 86400) of
        (y, m, d) \<Rightarrow> appendInt y 4 @ appendInt m 2 @ appendInt d 2)"

section \<open>Domain records\<close>

text \<open>
  \<open>domain.Artist\<close>, \<open>domain.Venue\<close> and \<open>domain.Event\<close>, with the fields that identify a
  record and the ones the aggregator reads. The fields \<open>ID\<close> and \<open>Name\<close> of a venue and
  \<open>ID\<close> of an event carry the record's name in front, since field names are global here.
\<close>

record Artist =
  ID :: string
  Name :: string
  Genres :: "string list"
  Popularity :: int
  ImageURL :: string

record Venue =
  VenueID :: string
  VenueName :: string
  City :: string
  Region :: string
  Country :: string

record Event =
  EventID :: string
  ArtistID :: string
  ArtistName :: string
  Title :: string
  DateTime :: Time
  Venue :: Venue
  TicketURL :: string
  TicketStatus :: string

section \<open>Deduplicator\<close>

text \<open>
  The map \<open>seen\<close> of the two loops is a \<open>map[string]bool\<close>: reading a key that is not
  in the map gives \<open>false\<close>.
\<close>

definition seenGet :: "(string \<rightharpoonup> bool) \<Rightarrow> string \<Rightarrow> bool" where
  "seenGet seen key = (case seen key of None \<Rightarrow> False | Some b \<Rightarrow> b)"

definition normalizeArtistName :: "string \<Rightarrow> string" where
  "normalizeArtistName name =
     (let name = ToLower name;
          name = ReplaceAll name '' '' '''';
          name = ReplaceAll name ''.'' '''';
          name = ReplaceAll name ''-'' ''''
      in name)"

definition normalizeEventKey :: "Event \<Rightarrow> string" where
  "normalizeEventKey event =
     (let artistKey = normalizeArtistName (ArtistName event);
          venueKey = ToLower (ReplaceAll (VenueName (Venue event)) '' '' '''');
          dateKey = Format_20060102 (DateTime event)
      in artistKey @ ''_'' @ venueKey @ ''_'' @ dateKey)"

text \<open>The loop of \<open>DeduplicateArtists\<close>, with its two variables \<open>seen\<close> and \<open>unique\<close>.\<close>

fun dedupArtistsLoop :: "(string \<rightharpoonup> bool) \<Rightarrow> Artist list \<Rightarrow> Artist list \<Rightarrow> Artist list" where
  "dedupArtistsLoop seen unique [] = unique"
| "dedupArtistsLoop seen unique (artist # artists) =
     (let key = normalizeArtistName (Name artist)
      in if \<not> seenGet seen key
         then dedupArtistsLoop (seen(key \<mapsto> True)) (unique @ [artist]) artists
         else dedupArtistsLoop seen unique artists)"

definition DeduplicateArtists :: "Artist list \<Rightarrow> Artist list" where
  "DeduplicateArtists artists = dedupArtistsLoop Map.empty [] artists"

fun dedupEventsLoop :: "(string \<rightharpoonup> bool) \<Rightarrow> Event list \<Rightarrow> Event list \<Rightarrow> Event list" where
  "dedupEventsLoop seen unique [] = unique"
| "dedupEventsLoop seen unique (event # events) =
     (let key = normalizeEventKey event
      in if \<not> seenGet seen key
         then dedupEventsLoop (seen(key \<mapsto> True)) (unique @ [event]) events
         else dedupEventsLoop seen unique events)"

definition DeduplicateEvents :: "Event list \<Rightarrow> Event list" where
  "DeduplicateEvents events = dedupEventsLoop Map.empty [] events"

text \<open>
  What the specification asks of a deduplicator, in its own words: the output keeps, in
  their order, exactly the records that are the first of their key in the input.
\<close>

definition firstOccurrences :: "('a \<Rightarrow> string) \<Rightarrow> 'a list \<Rightarrow> 'a list" where
  "firstOccurrences key xs =
     map (\<lambda>i. xs ! i) (filter (\<lambda>i. \<forall>j < i. key (xs ! j) \<noteq> key (xs ! i)) [0 ..< length xs])"

section \<open>Results, cache and configuration\<close>

text \<open>
  An \<open>error\<close> is its message, which is what the verb \<open>%v\<close> prints. The fields
  \<open>Artists\<close> and \<open>Events\<close> of a \<open>SourceResult\<close> are called \<open>ResultArtists\<close> and
  \<open>ResultEvents\<close> here, the names \<open>Artists\<close> and \<open>Events\<close> being those of
  \<open>AggregatedResults\<close>.
\<close>

record SourceResult =
  SourceName :: string
  ResultArtists :: "Artist list"
  ResultEvents :: "Event list"
  Error :: "string option"

record AggregatedResults =
  Artists :: "Artist list"
  Events :: "Event list"
  SourceStats :: "string \<rightharpoonup> int"
  TotalResults :: int
  SearchTime :: Duration
  Errors :: "string list"

record CacheEntry =
  Results :: AggregatedResults
  ExpiresAt :: Time

record AggregatorCache =
  artistCache :: "string \<rightharpoonup> CacheEntry"
  eventCache :: "string \<rightharpoonup> CacheEntry"
  ttl :: Duration

record MegaAggregatorConfig =
  MaxConcurrentRequests :: int
  RequestTimeout :: Duration
  CacheEnabled :: bool
  CacheTTL :: Duration
  DeduplicationEnabled :: bool
  IncludeScrapers :: bool
  MaxResultsPerSource :: int

text \<open>
  The three registries of a \<open>MegaAggregator\<close> are maps from a name to a collaborator;
  the model keeps their sets of names. What a collaborator answers is an input of each
  search. The field \<open>cache\<close> is a pointer that is nil when caching is off.
\<close>

record MegaAggregator =
  musicSources :: "string set"
  eventSources :: "string set"
  scraperRegistry :: "string set"
  cache :: "AggregatorCache option"
  config :: MegaAggregatorConfig

definition NewAggregatorCache :: "Duration \<Rightarrow> AggregatorCache" where
  "NewAggregatorCache d = \<lparr>artistCache = Map.empty, eventCache = Map.empty, ttl = d\<rparr>"

definition withDefaults :: "MegaAggregatorConfig \<Rightarrow> MegaAggregatorConfig" where
  "withDefaults c =
     c\<lparr>MaxConcurrentRequests := (if MaxConcurrentRequests c = 0 then 10 else MaxConcurrentRequests c),
       RequestTimeout := (if RequestTimeout c = 0 then 30 * Second else RequestTimeout c),
       CacheTTL := (if CacheTTL c = 0 then 1 * Hour else CacheTTL c),
       MaxResultsPerSource := (if MaxResultsPerSource c = 0 then 20 else MaxResultsPerSource c)\<rparr>"

definition NewMegaAggregator :: "MegaAggregatorConfig \<Rightarrow> MegaAggregator" where
  "NewMegaAggregator c =
     \<lparr>musicSources = {}, eventSources = {}, scraperRegistry = {},
      cache = (if CacheEnabled (withDefaults c)
               then Some (NewAggregatorCache (CacheTTL (withDefaults c))) else None),
      config = withDefaults c\<rparr>"

definition RegisterMusicSource :: "MegaAggregator \<Rightarrow> string \<Rightarrow> MegaAggregator" where
  "RegisterMusicSource m name = m\<lparr>musicSources := insert name (musicSources m)\<rparr>"

definition RegisterEventSource :: "MegaAggregator \<Rightarrow> string \<Rightarrow> MegaAggregator" where
  "RegisterEventSource m name = m\<lparr>eventSources := insert name (eventSources m)\<rparr>"

text \<open>A scraper is registered under the name that its \<open>GetName\<close> returns.\<close>

definition RegisterScraper :: "MegaAggregator \<Rightarrow> string \<Rightarrow> MegaAggregator" where
  "RegisterScraper m name = m\<lparr>scraperRegistry := insert name (scraperRegistry m)\<rparr>"

subsection \<open>AggregatorCache\<close>

definition artistCacheKey :: "string \<Rightarrow> int \<Rightarrow> string" where
  "artistCacheKey query limit = query @ ''_'' @ itoa limit"

definition eventCacheKey :: "string \<Rightarrow> string \<Rightarrow> int \<Rightarrow> string" where
  "eventCacheKey artistName city limit = artistName @ ''_'' @ city @ ''_'' @ itoa limit"

text \<open>The argument \<open>now\<close> of the four operations is what \<open>time.Now()\<close> returns in them.\<close>

definition GetArtists :: "AggregatorCache \<Rightarrow> Time \<Rightarrow> string \<Rightarrow> int \<Rightarrow> AggregatedResults option" where
  "GetArtists c now query limit =
     (case artistCache c (artistCacheKey query limit) of
        None \<Rightarrow> None
      | Some entry \<Rightarrow> if After now (ExpiresAt entry) then None else Some (Results entry))"

definition SetArtists :: "AggregatorCache \<Rightarrow> Time \<Rightarrow> string \<Rightarrow> int \<Rightarrow> AggregatedResults \<Rightarrow> AggregatorCache" where
  "SetArtists c now query limit results =
     c\<lparr>artistCache := (artistCache c)(artistCacheKey query limit \<mapsto>
          \<lparr>Results = results, ExpiresAt = Add now (ttl c)\<rparr>)\<rparr>"

definition GetEvents :: "AggregatorCache \<Rightarrow> Time \<Rightarrow> string \<Rightarrow> string \<Rightarrow> int \<Rightarrow> AggregatedResults option" where
  "GetEvents c now artistName city limit =
     (case eventCache c (eventCacheKey artistName city limit) of
        None \<Rightarrow> None
      | Some entry \<Rightarrow> if After now (ExpiresAt entry) then None else Some (Results entry))"

definition SetEvents :: "AggregatorCache \<Rightarrow> Time \<Rightarrow> string \<Rightarrow> string \<Rightarrow> int \<Rightarrow> AggregatedResults \<Rightarrow> AggregatorCache" where
  "SetEvents c now artistName city limit results =
     c\<lparr>eventCache := (eventCache c)(eventCacheKey artistName city limit \<mapsto>
          \<lparr>Results = results, ExpiresAt = Add now (ttl c)\<rparr>)\<rparr>"

section \<open>Fan-out orchestrator\<close>

text \<open>
  \<open>sort.Slice\<close> is not stable, and which permutation it returns for records that
  compare equal is not fixed by its contract. The searches therefore take the sorting
  function as an argument; \<open>sortSliceOk\<close> is the contract of \<open>sort.Slice\<close>: the outcome
  is a permutation of the slice, and it is in order whenever the ordering function is a
  strict weak order.
\<close>

type_synonym 'a sorter = "('a \<Rightarrow> 'a \<Rightarrow> bool) \<Rightarrow> 'a list \<Rightarrow> 'a list"

definition strictWeakOrder :: "('a \<Rightarrow> 'a \<Rightarrow> bool) \<Rightarrow> bool" where
  "strictWeakOrder lt =
     ((\<forall>a. \<not> lt a a) \<and>
      (\<forall>a b c. lt a b \<longrightarrow> lt b c \<longrightarrow> lt a c) \<and>
      (\<forall>a b c. \<not> lt a b \<longrightarrow> \<not> lt b c \<longrightarrow> \<not> lt a c))"

definition sortSliceOk :: "'a sorter \<Rightarrow> bool" where
  "sortSliceOk srt =
     (\<forall>lt xs. mset (srt lt xs) = mset xs \<and>
        (strictWeakOrder lt \<longrightarrow> sorted_wrt (\<lambda>a b. \<not> lt b a) (srt lt xs)))"

text \<open>A sorting function that meets the contract: insertion sort.\<close>

fun insertSorted :: "('a \<Rightarrow> 'a \<Rightarrow> bool) \<Rightarrow> 'a \<Rightarrow> 'a list \<Rightarrow> 'a list" where
  "insertSorted lt x [] = [x]"
| "insertSorted lt x (y # ys) =
     (if lt y x then y # insertSorted lt x ys else x # y # ys)"

definition insertionSort :: "'a sorter" where
  "insertionSort lt xs = foldr (insertSorted lt) xs []"

text \<open>
  The readings of the clock during one search: at entry (\<open>startTime\<close>), in the cache
  lookup, at the sort of the events (\<open>now\<close>), in \<open>time.Since\<close> and in the cache write.
\<close>

record Clock =
  tStart :: Time
  tGet :: Time
  tSort :: Time
  tSince :: Time
  tSet :: Time

text \<open>
  A search returns the pair of its Go signature, a results record (the pointer is never
  nil) and an error, or it does not return. The semaphore is made by
  \<open>make(chan struct{}, config.MaxConcurrentRequests)\<close>: for a negative size \<open>make\<close>
  panics, and with size 0 no goroutine ever gets past \<open>semaphore <- struct{}{}\<close>, so
  that the search blocks for ever as soon as one goroutine is launched.
\<close>

datatype SearchOutcome = Panic string | Blocked | Return AggregatedResults "string option"

fun returned :: "SearchOutcome \<Rightarrow> AggregatedResults option" where
  "returned (Panic msg) = None"
| "returned Blocked = None"
| "returned (Return results err) = Some results"

text \<open>
  The goroutines, the semaphore and the wait group of a search are not modelled. Their
  effect is the sequence of \<open>SourceResult\<close>s that the collecting loop receives from
  \<open>resultsChan\<close> before the channel is closed: one from each registered source (and
  from each scraper when scrapers are included), in the order in which the calls
  complete. That sequence, \<open>arrivals\<close>, is an input of the search; every call of a
  collaborator is taken to return. The record that a search returns is the one it
  stores in the cache, through a pointer; callers are taken not to write to it.
\<close>

definition artistArrivalsOk :: "MegaAggregator \<Rightarrow> SourceResult list \<Rightarrow> bool" where
  "artistArrivalsOk m arrivals =
     (distinct (map SourceName arrivals) \<and> set (map SourceName arrivals) = musicSources m)"

definition eventArrivalsOk :: "MegaAggregator \<Rightarrow> SourceResult list \<Rightarrow> bool" where
  "eventArrivalsOk m arrivals =
     (\<forall>n. count_list (map SourceName arrivals) n =
        (if n \<in> eventSources m then 1 else 0) +
        (if IncludeScrapers (config m) \<and> n \<in> scraperRegistry m then 1 else 0))"

text \<open>
  The body of \<open>SearchArtists\<close> is cut into named steps, in the order of the source:
  \<open>effectiveLimit\<close> is the default of the limit, \<open>cachedArtists\<close> the lookup in the
  cache, \<open>collectArtists\<close> the loop over \<open>resultsChan\<close> with its three variables
  (\<open>formatError\<close> is the \<open>Sprintf\<close> in it), \<open>processArtists\<close> the deduplication, the
  sort (with \<open>artistLess\<close> the function given to \<open>sort.Slice\<close>) and the truncation
  (\<open>truncateTo\<close>), \<open>aggregateArtists\<close> the record built at the end. The two searches of
  events are cut in the same way.
\<close>

definition formatError :: "SourceResult \<Rightarrow> string \<Rightarrow> string" where
  "formatError result e = SourceName result @ '': '' @ e"

fun collectArtists ::
  "SourceResult list \<Rightarrow> Artist list \<Rightarrow> (string \<rightharpoonup> int) \<Rightarrow> string list \<Rightarrow>
     Artist list \<times> (string \<rightharpoonup> int) \<times> string list" where
  "collectArtists [] allArtists sourceStats errors = (allArtists, sourceStats, errors)"
| "collectArtists (result # rest) allArtists sourceStats errors =
     (case Error result of
        Some e \<Rightarrow> collectArtists rest allArtists sourceStats (errors @ [formatError result e])
      | None \<Rightarrow>
          collectArtists rest (allArtists @ ResultArtists result)
            (sourceStats(SourceName result \<mapsto> int (length (ResultArtists result)))) errors)"

fun collectEvents ::
  "SourceResult list \<Rightarrow> Event list \<Rightarrow> (string \<rightharpoonup> int) \<Rightarrow> string list \<Rightarrow>
     Event list \<times> (string \<rightharpoonup> int) \<times> string list" where
  "collectEvents [] allEvents sourceStats errors = (allEvents, sourceStats, errors)"
| "collectEvents (result # rest) allEvents sourceStats errors =
     (case Error result of
        Some e \<Rightarrow> collectEvents rest allEvents sourceStats (errors @ [formatError result e])
      | None \<Rightarrow>
          collectEvents rest (allEvents @ ResultEvents result)
            (sourceStats(SourceName result \<mapsto> int (length (ResultEvents result)))) errors)"

definition artistLess :: "Artist \<Rightarrow> Artist \<Rightarrow> bool" where
  "artistLess ai aj = (Popularity ai > Popularity aj)"

definition eventLess :: "Time \<Rightarrow> Event \<Rightarrow> Event \<Rightarrow> bool" where
  "eventLess now ei ej =
     (let iUpcoming = After (DateTime ei) now;
          jUpcoming = After (DateTime ej) now
      in if iUpcoming \<and> \<not> jUpcoming then True
         else if \<not> iUpcoming \<and> jUpcoming then False
         else Before (DateTime ei) (DateTime ej))"

definition effectiveLimit :: "int \<Rightarrow> int" where
  "effectiveLimit limit = (if limit \<le> 0 then 50 else limit)"

definition truncateTo :: "int \<Rightarrow> 'a list \<Rightarrow> 'a list" where
  "truncateTo limit xs = (if int (length xs) > limit then take (nat limit) xs else xs)"

definition processArtists :: "Artist sorter \<Rightarrow> MegaAggregatorConfig \<Rightarrow> int \<Rightarrow> Artist list \<Rightarrow> Artist list" where
  "processArtists srt cfg limit allArtists =
     truncateTo limit
       (srt artistLess
          (if DeduplicationEnabled cfg then DeduplicateArtists allArtists else allArtists))"

definition processEvents :: "Event sorter \<Rightarrow> MegaAggregatorConfig \<Rightarrow> Time \<Rightarrow> int \<Rightarrow> Event list \<Rightarrow> Event list" where
  "processEvents srt cfg now limit allEvents =
     truncateTo limit
       (srt (eventLess now)
          (if DeduplicationEnabled cfg then DeduplicateEvents allEvents else allEvents))"

definition aggregateArtists ::
  "Artist sorter \<Rightarrow> MegaAggregatorConfig \<Rightarrow> Clock \<Rightarrow> int \<Rightarrow> SourceResult list \<Rightarrow> AggregatedResults" where
  "aggregateArtists srt cfg clk limit arrivals =
     (case collectArtists arrivals [] Map.empty [] of
        (allArtists, sourceStats, errors) \<Rightarrow>
          \<lparr>Artists = processArtists srt cfg limit allArtists,
           Events = [],
           SourceStats = sourceStats,
           TotalResults = int (length (processArtists srt cfg limit allArtists)),
           SearchTime = Sub (tSince clk) (tStart clk),
           Errors = errors\<rparr>)"

definition aggregateEvents ::
  "Event sorter \<Rightarrow> MegaAggregatorConfig \<Rightarrow> Clock \<Rightarrow> int \<Rightarrow> SourceResult list \<Rightarrow> AggregatedResults" where
  "aggregateEvents srt cfg clk limit arrivals =
     (case collectEvents arrivals [] Map.empty [] of
        (allEvents, sourceStats, errors) \<Rightarrow>
          \<lparr>Artists = [],
           Events = processEvents srt cfg (tSort clk) limit allEvents,
           SourceStats = sourceStats,
           TotalResults = int (length (processEvents srt cfg (tSort clk) limit allEvents)),
           SearchTime = Sub (tSince clk) (tStart clk),
           Errors = errors\<rparr>)"

definition cachedArtists :: "MegaAggregator \<Rightarrow> Time \<Rightarrow> string \<Rightarrow> int \<Rightarrow> AggregatedResults option" where
  "cachedArtists m now query limit =
     (case cache m of None \<Rightarrow> None | Some c \<Rightarrow> GetArtists c now query limit)"

definition cachedEvents :: "MegaAggregator \<Rightarrow> Time \<Rightarrow> string \<Rightarrow> string \<Rightarrow> int \<Rightarrow> AggregatedResults option" where
  "cachedEvents m now artistName city limit =
     (case cache m of None \<Rightarrow> None | Some c \<Rightarrow> GetEvents c now artistName city limit)"

definition noEventSources :: "MegaAggregator \<Rightarrow> bool" where
  "noEventSources m =
     (eventSources m = {} \<and> (IncludeScrapers (config m) \<longrightarrow> scraperRegistry m = {}))"

definition SearchArtists ::
  "Artist sorter \<Rightarrow> MegaAggregator \<Rightarrow> Clock \<Rightarrow> string \<Rightarrow> int \<Rightarrow> SourceResult list \<Rightarrow>
     SearchOutcome \<times> MegaAggregator" where
  "SearchArtists srt m clk query limit arrivals =
     (case cachedArtists m (tGet clk) query (effectiveLimit limit) of
        Some cached \<Rightarrow> (Return cached None, m)
      | None \<Rightarrow>
          if MaxConcurrentRequests (config m) < 0
          then (Panic ''makechan: size out of range'', m)
          else if MaxConcurrentRequests (config m) = 0 \<and> musicSources m \<noteq> {}
          then (Blocked, m)
          else (Return (aggregateArtists srt (config m) clk (effectiveLimit limit) arrivals) None,
                m\<lparr>cache := map_option
                  (\<lambda>c. SetArtists c (tSet clk) query (effectiveLimit limit)
                         (aggregateArtists srt (config m) clk (effectiveLimit limit) arrivals))
                  (cache m)\<rparr>))"

text \<open>
  \<open>SearchEvents\<close> and \<open>SearchEventsByLocation\<close> have the same body but for the calls
  they make to the collaborators, which are inputs here, and for the pair of strings
  that they pass to the cache: \<open>(artistName, "")\<close> and \<open>("", city)\<close>.
\<close>

definition searchEventsKeyed ::
  "Event sorter \<Rightarrow> MegaAggregator \<Rightarrow> Clock \<Rightarrow> string \<Rightarrow> string \<Rightarrow> int \<Rightarrow> SourceResult list \<Rightarrow>
     SearchOutcome \<times> MegaAggregator" where
  "searchEventsKeyed srt m clk artistName city limit arrivals =
     (case cachedEvents m (tGet clk) artistName city (effectiveLimit limit) of
        Some cached \<Rightarrow> (Return cached None, m)
      | None \<Rightarrow>
          if MaxConcurrentRequests (config m) < 0
          then (Panic ''makechan: size out of range'', m)
          else if MaxConcurrentRequests (config m) = 0 \<and> \<not> noEventSources m
          then (Blocked, m)
          else (Return (aggregateEvents srt (config m) clk (effectiveLimit limit) arrivals) None,
                m\<lparr>cache := map_option
                  (\<lambda>c. SetEvents c (tSet clk) artistName city (effectiveLimit limit)
                         (aggregateEvents srt (config m) clk (effectiveLimit limit) arrivals))
                  (cache m)\<rparr>))"

definition SearchEvents ::
  "Event sorter \<Rightarrow> MegaAggregator \<Rightarrow> Clock \<Rightarrow> string \<Rightarrow> int \<Rightarrow> SourceResult list \<Rightarrow>
     SearchOutcome \<times> MegaAggregator" where
  "SearchEvents srt m clk artistName limit arrivals =
     searchEventsKeyed srt m clk artistName '''' limit arrivals"

definition SearchEventsByLocation ::
  "Event sorter \<Rightarrow> MegaAggregator \<Rightarrow> Clock \<Rightarrow> string \<Rightarrow> string \<Rightarrow> int \<Rightarrow> SourceResult list \<Rightarrow>
     SearchOutcome \<times> MegaAggregator" where
  "SearchEventsByLocation srt m clk city country limit arrivals =
     searchEventsKeyed srt m clk '''' city limit arrivals"

text \<open>
  The states of an aggregator: it is built by \<open>NewMegaAggregator\<close>, sources and scrapers
  are registered, and searches are run on it.
\<close>

inductive reachable :: "Artist sorter \<Rightarrow> Event sorter \<Rightarrow> MegaAggregator \<Rightarrow> bool"
  for sa :: "Artist sorter" and se :: "Event sorter" where
  reach_new: "reachable sa se (NewMegaAggregator c)"
| reach_music: "reachable sa se m \<Longrightarrow> reachable sa se (RegisterMusicSource m name)"
| reach_event: "reachable sa se m \<Longrightarrow> reachable sa se (RegisterEventSource m name)"
| reach_scraper: "reachable sa se m \<Longrightarrow> reachable sa se (RegisterScraper m name)"
| reach_artists:
    "reachable sa se m \<Longrightarrow> artistArrivalsOk m arrivals \<Longrightarrow>
       reachable sa se (snd (SearchArtists sa m clk query limit arrivals))"
| reach_events:
    "reachable sa se m \<Longrightarrow> eventArrivalsOk m arrivals \<Longrightarrow>
       reachable sa se (snd (SearchEvents se m clk artistName limit arrivals))"
| reach_location:
    "reachable sa se m \<Longrightarrow> eventArrivalsOk m arrivals \<Longrightarrow>
       reachable sa se (snd (SearchEventsByLocation se m clk city country limit arrivals))"

section \<open>Rate limiters\<close>

definition ErrRateLimitExceeded :: string where
  "ErrRateLimitExceeded = ''rate limit exceeded''"

subsection \<open>The daily counter of the Bandsintown client\<close>

record rateLimiter =
  requests :: int
  windowStart :: Time
  dailyLimit :: int

definition newRateLimiter :: "int \<Rightarrow> Time \<Rightarrow> rateLimiter" where
  "newRateLimiter limit now = \<lparr>requests = 0, windowStart = now, dailyLimit = limit\<rparr>"

text \<open>The first statement of \<open>Allow\<close>: a new window when the old one is over.\<close>

definition resetWindow :: "rateLimiter \<Rightarrow> Time \<Rightarrow> rateLimiter" where
  "resetWindow r now =
     (if Sub now (windowStart r) > 24 * Hour then r\<lparr>requests := 0, windowStart := now\<rparr> else r)"

text \<open>
  \<open>Allow\<close> returns the error, if any, and the state it leaves. The counter cannot
  overflow: it is incremented only when it is below \<open>dailyLimit\<close>.
\<close>

definition rateLimiter_Allow :: "rateLimiter \<Rightarrow> Time \<Rightarrow> string option \<times> rateLimiter" where
  "rateLimiter_Allow r now =
     (if requests (resetWindow r now) \<ge> dailyLimit (resetWindow r now)
      then (Some ErrRateLimitExceeded, resetWindow r now)
      else (None, (resetWindow r now)\<lparr>requests := requests (resetWindow r now) + 1\<rparr>))"

fun allowMany :: "rateLimiter \<Rightarrow> Time list \<Rightarrow> string option list \<times> rateLimiter" where
  "allowMany r [] = ([], r)"
| "allowMany r (now # rest) =
     (case rateLimiter_Allow r now of
        (e, r') \<Rightarrow> (case allowMany r' rest of (es, r'') \<Rightarrow> (e # es, r'')))"

subsection \<open>The throttle of the MusicBrainz client\<close>

record musicBrainzRateLimiter =
  lastRequest :: Time
  interval :: Duration

definition wrap64 :: "int \<Rightarrow> int" where
  "wrap64 x = (x + 2 ^ 63) mod 2 ^ 64 - 2 ^ 63"

text \<open>
  \<open>now\<close> is the first reading of the clock. \<open>time.Sleep d\<close> returns once at least \<open>d\<close>
  has passed, and at once when \<open>d\<close> is not positive; \<open>lag\<close> is the time that passes
  between the first reading and the second one beyond the time asked of \<open>Sleep\<close>.
  \<open>sleepTime\<close> is the duration given to \<open>Sleep\<close>, 0 when \<open>Sleep\<close> is not called; the
  subtraction of durations wraps around in 64 bits.
\<close>

definition sleepTime :: "musicBrainzRateLimiter \<Rightarrow> Time \<Rightarrow> Duration" where
  "sleepTime r now =
     (if Sub now (lastRequest r) < interval r
      then wrap64 (interval r - Sub now (lastRequest r)) else 0)"

definition musicBrainzRateLimiter_Allow ::
  "musicBrainzRateLimiter \<Rightarrow> Time \<Rightarrow> Duration \<Rightarrow> string option \<times> musicBrainzRateLimiter" where
  "musicBrainzRateLimiter_Allow r now lag =
     (None, r\<lparr>lastRequest := Add now (max 0 (sleepTime r now) + lag)\<rparr>)"

section \<open>Auxiliary definitions for the proofs\<close>

text \<open>
  The records that a deduplication loop keeps when the keys in \<open>S\<close> have been seen
  already.
\<close>

fun firsts :: "('a \<Rightarrow> string) \<Rightarrow> string set \<Rightarrow> 'a list \<Rightarrow> 'a list" where
  "firsts key S [] = []"
| "firsts key S (x # xs) =
     (if key x \<in> S then firsts key S xs else x # firsts key (insert (key x) S) xs)"

text \<open>
  The order of events that the specification asks for, relative to an instant \<open>now\<close>:
  no event at or before \<open>now\<close> comes before an event after \<open>now\<close>, and two events on the
  same side of \<open>now\<close> come in the order of their start times.
\<close>

definition upcomingFirst :: "Time \<Rightarrow> Event list \<Rightarrow> bool" where
  "upcomingFirst now es =
     sorted_wrt (\<lambda>a b.
        (After (DateTime b) now \<longrightarrow> After (DateTime a) now) \<and>
        ((After (DateTime a) now \<longleftrightarrow> After (DateTime b) now) \<longrightarrow>
           unixNano (DateTime a) \<le> unixNano (DateTime b))) es"

definition byPopularity :: "Artist list \<Rightarrow> bool" where
  "byPopularity as = sorted_wrt (\<lambda>a b. Popularity a \<ge> Popularity b) as"

text \<open>Records for the examples.\<close>

definition exArtist :: "string \<Rightarrow> int \<Rightarrow> Artist" where
  "exArtist n p = \<lparr>ID = n, Name = n, Genres = [], Popularity = p, ImageURL = ''''\<rparr>"

definition exVenue :: "string \<Rightarrow> Venue" where
  "exVenue v = \<lparr>VenueID = '''', VenueName = v, City = '''', Region = '''', Country = ''''\<rparr>"

definition exEvent :: "string \<Rightarrow> string \<Rightarrow> int \<Rightarrow> Event" where
  "exEvent a v t =
     \<lparr>EventID = '''', ArtistID = '''', ArtistName = a, Title = '''',
      DateTime = \<lparr>unixNano = t, zoneOffset = 0\<rparr>, Venue = exVenue v,
      TicketURL = '''', TicketStatus = ''''\<rparr>"

definition exTime :: "int \<Rightarrow> Time" where
  "exTime t = \<lparr>unixNano = t, zoneOffset = 0\<rparr>"

definition exConfig :: "bool \<Rightarrow> bool \<Rightarrow> MegaAggregatorConfig" where
  "exConfig cacheOn dedupOn =
     \<lparr>MaxConcurrentRequests = 0, RequestTimeout = 0, CacheEnabled = cacheOn, CacheTTL = 0,
      DeduplicationEnabled = dedupOn, IncludeScrapers = False, MaxResultsPerSource = 0\<rparr>"

definition exClock :: "int \<Rightarrow> Clock" where
  "exClock t =
     \<lparr>tStart = exTime t, tGet = exTime t, tSort = exTime t, tSince = exTime t, tSet = exTime t\<rparr>"

definition exArtists :: "string \<Rightarrow> Artist list \<Rightarrow> SourceResult" where
  "exArtists n as = \<lparr>SourceName = n, ResultArtists = as, ResultEvents = [], Error = None\<rparr>"

definition exEvents :: "string \<Rightarrow> Event list \<Rightarrow> SourceResult" where
  "exEvents n es = \<lparr>SourceName = n, ResultArtists = [], ResultEvents = es, Error = None\<rparr>"

definition exFailure :: "string \<Rightarrow> string \<Rightarrow> SourceResult" where
  "exFailure n msg = \<lparr>SourceName = n, ResultArtists = [], ResultEvents = [], Error = Some msg\<rparr>"

text \<open>Reading a string of decimal digits, the inverse of \<open>digits\<close>.\<close>

definition digit_val :: "char \<Rightarrow> nat" where
  "digit_val c = (case map_of (zip ''0123456789'' [0 ..< 10]) c of Some d \<Rightarrow> d | None \<Rightarrow> 0)"

definition undigits :: "string \<Rightarrow> nat" where
  "undigits s = foldl (\<lambda>n c. 10 * n + digit_val c) 0 s"

text \<open>
  What the collecting loops compute, said directly: the results that carry no error, the
  line for a result that carries one, and the count recorded for a source name, which is
  that of the last result without error received under that name.
\<close>

definition succeeded :: "SourceResult \<Rightarrow> bool" where
  "succeeded r = (Error r = None)"

definition errorLine :: "SourceResult \<Rightarrow> string" where
  "errorLine r = SourceName r @ '': '' @ the (Error r)"

definition lastCount :: "(SourceResult \<Rightarrow> nat) \<Rightarrow> SourceResult list \<Rightarrow> string \<Rightarrow> int option" where
  "lastCount cnt rs n =
     map_option (\<lambda>r. int (cnt r)) (find (\<lambda>r. SourceName r = n) (rev (filter succeeded rs)))"

text \<open>
  Properties of every entry of the two caches of an aggregator. The property of an entry
  may depend on the key it is stored under and on the registries and the configuration
  of the aggregator.
\<close>

definition cacheAll ::
  "(MegaAggregator \<Rightarrow> string \<Rightarrow> AggregatedResults \<Rightarrow> bool) \<Rightarrow>
   (MegaAggregator \<Rightarrow> string \<Rightarrow> AggregatedResults \<Rightarrow> bool) \<Rightarrow> MegaAggregator \<Rightarrow> bool" where
  "cacheAll PA PE m =
     (\<forall>c k e. cache m = Some c \<longrightarrow>
        (artistCache c k = Some e \<longrightarrow> PA m k (Results e)) \<and>
        (eventCache c k = Some e \<longrightarrow> PE m k (Results e)))"

definition artistEntryOk :: "string \<Rightarrow> AggregatedResults \<Rightarrow> bool" where
  "artistEntryOk k r =
     (TotalResults r = int (length (Artists r)) \<and>
      (\<forall>q l. 0 < l \<longrightarrow> k = artistCacheKey q l \<longrightarrow> int (length (Artists r)) \<le> l))"

definition eventEntryOk :: "string \<Rightarrow> AggregatedResults \<Rightarrow> bool" where
  "eventEntryOk k r =
     (TotalResults r = int (length (Events r)) \<and>
      (\<forall>a ci l. 0 < l \<longrightarrow> k = eventCacheKey a ci l \<longrightarrow> int (length (Events r)) \<le> l))"

definition emptyResults :: "AggregatedResults \<Rightarrow> bool" where
  "emptyResults r = (Artists r = [] \<and> Events r = [] \<and> Errors r = [])"

definition exAggregator :: "bool \<Rightarrow> bool \<Rightarrow> MegaAggregator" where
  "exAggregator cacheOn dedupOn =
     RegisterEventSource
       (RegisterMusicSource
          (RegisterMusicSource (NewMegaAggregator (exConfig cacheOn dedupOn)) ''A'') ''B'')
       ''E''"

text \<open>
  The aggregators built by \<open>NewMegaAggregator\<close> and used through its operations, as in
  \<open>reachable\<close>, together with the readings of the clock that the event searches took at
  their sorting step, the latest first: an event search that does not find its answer
  in the cache and returns has sorted its list, relative to its reading \<open>tSort\<close>.
\<close>

definition sortReadings ::
  "MegaAggregator \<Rightarrow> Clock \<Rightarrow> string \<Rightarrow> string \<Rightarrow> int \<Rightarrow> SearchOutcome \<Rightarrow> Time list \<Rightarrow>
     Time list" where
  "sortReadings m clk artistName city limit outcome nows =
     (if cachedEvents m (tGet clk) artistName city (effectiveLimit limit) = None \<and>
         returned outcome \<noteq> None
      then tSort clk # nows
      else nows)"

inductive reachableAt :: "Artist sorter \<Rightarrow> Event sorter \<Rightarrow> Time list \<Rightarrow> MegaAggregator \<Rightarrow> bool"
  for sa :: "Artist sorter" and se :: "Event sorter" where
  at_new: "reachableAt sa se [] (NewMegaAggregator c)"
| at_music: "reachableAt sa se nows m \<Longrightarrow> reachableAt sa se nows (RegisterMusicSource m name)"
| at_event: "reachableAt sa se nows m \<Longrightarrow> reachableAt sa se nows (RegisterEventSource m name)"
| at_scraper: "reachableAt sa se nows m \<Longrightarrow> reachableAt sa se nows (RegisterScraper m name)"
| at_artists:
    "reachableAt sa se nows m \<Longrightarrow> artistArrivalsOk m arrivals \<Longrightarrow>
       reachableAt sa se nows (snd (SearchArtists sa m clk query limit arrivals))"
| at_events:
    "reachableAt sa se nows m \<Longrightarrow> eventArrivalsOk m arrivals \<Longrightarrow>
       reachableAt sa se
         (sortReadings m clk artistName '''' limit
            (fst (SearchEvents se m clk artistName limit arrivals)) nows)
         (snd (SearchEvents se m clk artistName limit arrivals))"
| at_location:
    "reachableAt sa se nows m \<Longrightarrow> eventArrivalsOk m arrivals \<Longrightarrow>
       reachableAt sa se
         (sortReadings m clk '''' city limit
            (fst (SearchEventsByLocation se m clk city country limit arrivals)) nows)
         (snd (SearchEventsByLocation se m clk city country limit arrivals))"

section \<open>Deduplication keeps the first record of each key\<close>

lemma seenGet_upd: "seenGet (seen(k \<mapsto> True)) k' = (k' = k \<or> seenGet seen k')"
  by (simp add: seenGet_def)

lemma seen_set_upd: "{k'. seenGet (seen(k \<mapsto> True)) k'} = insert k {k'. seenGet seen k'}"
  by (auto simp: seenGet_upd)

lemma seen_set_empty: "{k. seenGet Map.empty k} = {}"
  by (simp add: seenGet_def)

lemma dedupArtistsLoop_firsts:
  "dedupArtistsLoop seen unique xs =
     unique @ firsts (\<lambda>a. normalizeArtistName (Name a)) {k. seenGet seen k} xs"
  by (induction xs arbitrary: seen unique) (simp_all add: Let_def seen_set_upd)

lemma dedupEventsLoop_firsts:
  "dedupEventsLoop seen unique xs = unique @ firsts normalizeEventKey {k. seenGet seen k} xs"
  by (induction xs arbitrary: seen unique) (simp_all add: Let_def seen_set_upd)

lemma DeduplicateArtists_firsts:
  "DeduplicateArtists xs = firsts (\<lambda>a. normalizeArtistName (Name a)) {} xs"
  by (simp add: DeduplicateArtists_def dedupArtistsLoop_firsts seen_set_empty)

lemma DeduplicateEvents_firsts: "DeduplicateEvents xs = firsts normalizeEventKey {} xs"
  by (simp add: DeduplicateEvents_def dedupEventsLoop_firsts seen_set_empty)

lemma firsts_index:
  "firsts key S xs =
     map (\<lambda>i. xs ! i)
       (filter (\<lambda>i. key (xs ! i) \<notin> S \<and> (\<forall>j < i. key (xs ! j) \<noteq> key (xs ! i))) [0 ..< length xs])"
proof (induction xs arbitrary: S)
  case Nil
  show ?case by simp
next
  case (Cons x xs)
  have upt: "[0 ..< length (x # xs)] = 0 # map Suc [0 ..< length xs]"
    by (simp add: upt_conv_Cons map_Suc_upt del: upt_Suc)
  have split: "\<And>i P. (\<forall>j < Suc i. P j) \<longleftrightarrow> P 0 \<and> (\<forall>j < i. P (Suc j))"
    by (auto simp: less_Suc_eq_0_disj)
  show ?case
  proof (cases "key x \<in> S")
    case True
    have "\<And>i. (key (xs ! i) \<notin> S \<and> key x \<noteq> key (xs ! i) \<and> (\<forall>j < i. key (xs ! j) \<noteq> key (xs ! i)))
        \<longleftrightarrow> (key (xs ! i) \<notin> S \<and> (\<forall>j < i. key (xs ! j) \<noteq> key (xs ! i)))"
      using True by auto
    with True show ?thesis
      unfolding upt by (simp add: Cons.IH filter_map comp_def split)
  next
    case False
    have "\<And>i. (key (xs ! i) \<notin> S \<and> key x \<noteq> key (xs ! i) \<and> (\<forall>j < i. key (xs ! j) \<noteq> key (xs ! i)))
        \<longleftrightarrow> (key (xs ! i) \<notin> insert (key x) S \<and> (\<forall>j < i. key (xs ! j) \<noteq> key (xs ! i)))"
      by auto
    with False show ?thesis
      unfolding upt by (simp add: Cons.IH filter_map comp_def split)
  qed
qed

lemma firsts_firstOccurrences: "firsts key {} xs = firstOccurrences key xs"
  by (simp add: firsts_index firstOccurrences_def)

lemma firsts_subseq: "subseq (firsts key S xs) xs"
  by (induction xs arbitrary: S) auto

lemma firsts_length: "length (firsts key S xs) \<le> length xs"
  by (induction xs arbitrary: S) (auto simp: le_SucI)

lemma firsts_keys: "key ` set (firsts key S xs) = key ` set xs - S"
  by (induction xs arbitrary: S) auto

lemma firsts_distinct: "distinct (map key (firsts key S xs))"
  by (induction xs arbitrary: S) (auto simp: firsts_keys)

lemma replaceFrom_single: "replaceFrom s [c] [] = filter (\<lambda>x. x \<noteq> c) s"
  by (induction s) auto

lemma ReplaceAll_single: "ReplaceAll s [c] [] = filter (\<lambda>x. x \<noteq> c) s"
  by (simp add: ReplaceAll_def replaceFrom_single)

lemma normalizeArtistName_filter:
  "normalizeArtistName name =
     filter (\<lambda>c. c \<notin> {CHR '' '', CHR ''.'', CHR ''-''}) (ToLower name)"
  by (simp add: normalizeArtistName_def ReplaceAll_single conj_commute conj_left_commute)

lemma normalizeEventKey_shape:
  "normalizeEventKey e =
     normalizeArtistName (ArtistName e) @ ''_'' @
     ToLower (filter (\<lambda>c. c \<noteq> CHR '' '') (VenueName (Venue e))) @ ''_'' @
     Format_20060102 (DateTime e)"
  by (simp add: normalizeEventKey_def ReplaceAll_single)

lemma digits_lt10: "n < 10 \<Longrightarrow> digits n = [digit_char n]"
  by (subst digits.simps) simp

lemma digits_ge10: "10 \<le> n \<Longrightarrow> digits n = digits (n div 10) @ [digit_char (n mod 10)]"
  by (subst digits.simps) simp

lemmas eval_digits = digits_lt10 digits_ge10 digit_char_def

lemmas eval_date =
  Format_20060102_def civil_def civilOfEra_def civilOfYearOfEra_def civilOfDayOfYear_def
  civilOfMonth_def appendInt_def eval_digits

lemmas eval_names =
  normalizeArtistName_def ReplaceAll_def ToLower_def isASCII_def hasUpper_def RuneSelf_def
  toLowerByte_def char_of_def bit_0

lemmas eval_runes =
  DecodeRuneInString_def byteAt_def first_def acceptRanges_def RuneError_def unicode_ToLower_def
  lowerCaseRanges_def inRange_def AppendRune_def encode3_def char_of_def bit_0

text \<open>
  Claim C3. \<open>DeduplicateArtists\<close> and \<open>DeduplicateEvents\<close> return the records of the
  input that are the first of their normalized key, in the order of the input: the
  output is a subsequence of the input, no longer than it, its keys are pairwise
  different and they are the keys of the input, so that two records of the input are
  represented by one record of the output exactly when their keys are equal. The key of
  an artist is the name put in lower case by \<open>strings.ToLower\<close>, without its spaces,
  periods and hyphens. The key of an event is that key of its artist name, the venue
  name and the date as year, month and day, joined by underscores, the venue name
  without its spaces and put in lower case by \<open>strings.ToLower\<close>: \<open>normalizeEventKey\<close>
  removes the spaces first and puts the rest in lower case.
\<close>

theorem dedup_keeps_first_occurrences:
  "DeduplicateArtists as = firstOccurrences (\<lambda>a. normalizeArtistName (Name a)) as \<and>
   subseq (DeduplicateArtists as) as \<and>
   length (DeduplicateArtists as) \<le> length as \<and>
   distinct (map (\<lambda>a. normalizeArtistName (Name a)) (DeduplicateArtists as)) \<and>
   (\<lambda>a. normalizeArtistName (Name a)) ` set (DeduplicateArtists as) =
     (\<lambda>a. normalizeArtistName (Name a)) ` set as \<and>
   DeduplicateEvents es = firstOccurrences normalizeEventKey es \<and>
   subseq (DeduplicateEvents es) es \<and>
   length (DeduplicateEvents es) \<le> length es \<and>
   distinct (map normalizeEventKey (DeduplicateEvents es)) \<and>
   normalizeEventKey ` set (DeduplicateEvents es) = normalizeEventKey ` set es \<and>
   normalizeArtistName name =
     filter (\<lambda>c. c \<notin> {CHR '' '', CHR ''.'', CHR ''-''}) (ToLower name) \<and>
   normalizeEventKey e =
     normalizeArtistName (ArtistName e) @ ''_'' @
     ToLower (filter (\<lambda>c. c \<noteq> CHR '' '') (VenueName (Venue e))) @ ''_'' @
     Format_20060102 (DateTime e)"
proof (intro conjI)
  show "DeduplicateArtists as = firstOccurrences (\<lambda>a. normalizeArtistName (Name a)) as"
    by (simp only: DeduplicateArtists_firsts firsts_firstOccurrences)
  show "DeduplicateEvents es = firstOccurrences normalizeEventKey es"
    by (simp only: DeduplicateEvents_firsts firsts_firstOccurrences)
  show "normalizeArtistName name =
     filter (\<lambda>c. c \<notin> {CHR '' '', CHR ''.'', CHR ''-''}) (ToLower name)"
    by (rule normalizeArtistName_filter)
  show "normalizeEventKey e =
     normalizeArtistName (ArtistName e) @ ''_'' @
     ToLower (filter (\<lambda>c. c \<noteq> CHR '' '') (VenueName (Venue e))) @ ''_'' @
     Format_20060102 (DateTime e)"
    by (rule normalizeEventKey_shape)
qed (simp_all only: DeduplicateArtists_firsts DeduplicateEvents_firsts
       firsts_subseq firsts_length firsts_distinct firsts_keys Diff_empty)

text \<open>
  An example with names beyond ASCII, in UTF-8: a name that begins with the capital
  letter \<open>U+00C9\<close>, of the bytes \<open>C3 89\<close>, and the same name with the small letter
  \<open>U+00E9\<close>, of the bytes \<open>C3 A9\<close>, have one key. The venue name of the bytes
  \<open>C3 20 89\<close>, which is not well-formed, has the key \<open>C3 A9\<close>, the space being removed
  before the lower case is taken.
\<close>

theorem dedup_keeps_first_occurrences_witness:
  "DeduplicateArtists
     [exArtist ''Radiohead'' 90, exArtist ''radiohead.'' 70, exArtist ''AC-DC'' 50,
      exArtist (CHR 0xC3 # CHR 0x89 # ''dith Piaf'') 40, exArtist ''R.E.M.'' 10,
      exArtist ''ac dc'' 5, exArtist (CHR 0xC3 # CHR 0xA9 # ''dith piaf'') 3] =
     [exArtist ''Radiohead'' 90, exArtist ''AC-DC'' 50,
      exArtist (CHR 0xC3 # CHR 0x89 # ''dith Piaf'') 40, exArtist ''R.E.M.'' 10] \<and>
   firstOccurrences (\<lambda>a. normalizeArtistName (Name a))
     [exArtist ''Radiohead'' 90, exArtist ''radiohead.'' 70, exArtist ''AC-DC'' 50,
      exArtist (CHR 0xC3 # CHR 0x89 # ''dith Piaf'') 40, exArtist ''R.E.M.'' 10,
      exArtist ''ac dc'' 5, exArtist (CHR 0xC3 # CHR 0xA9 # ''dith piaf'') 3] =
     [exArtist ''Radiohead'' 90, exArtist ''AC-DC'' 50,
      exArtist (CHR 0xC3 # CHR 0x89 # ''dith Piaf'') 40, exArtist ''R.E.M.'' 10] \<and>
   normalizeArtistName (CHR 0xC3 # CHR 0x89 # ''dith Piaf'') =
     CHR 0xC3 # CHR 0xA9 # ''dithpiaf'' \<and>
   normalizeArtistName (CHR 0xC3 # CHR 0xA9 # ''dith piaf'') =
     CHR 0xC3 # CHR 0xA9 # ''dithpiaf'' \<and>
   DeduplicateEvents
     [exEvent ''Radiohead'' ''O2 Arena'' 1710460800000000000,
      exEvent ''radiohead'' ''o2arena'' 1710500000000000000,
      exEvent ''Radiohead'' ''O2 Arena'' 1710547200000000000] =
     [exEvent ''Radiohead'' ''O2 Arena'' 1710460800000000000,
      exEvent ''Radiohead'' ''O2 Arena'' 1710547200000000000] \<and>
   normalizeEventKey (exEvent ''Radiohead'' ''O2 Arena'' 1710460800000000000) =
     ''radiohead_o2arena_20240315'' \<and>
   normalizeEventKey (exEvent ''Muse'' [CHR 0xC3, CHR '' '', CHR 0x89] 1710460800000000000) =
     ''muse_'' @ [CHR 0xC3, CHR 0xA9] @ ''_20240315''"
proof -
  let ?as = "[exArtist ''Radiohead'' 90, exArtist ''radiohead.'' 70, exArtist ''AC-DC'' 50,
      exArtist (CHR 0xC3 # CHR 0x89 # ''dith Piaf'') 40, exArtist ''R.E.M.'' 10,
      exArtist ''ac dc'' 5, exArtist (CHR 0xC3 # CHR 0xA9 # ''dith piaf'') 3]"
  have p1: "normalizeArtistName (CHR 0xC3 # CHR 0x89 # ''dith Piaf'') =
      CHR 0xC3 # CHR 0xA9 # ''dithpiaf''"
    by (simp add: eval_names eval_runes)
  have p2: "normalizeArtistName (CHR 0xC3 # CHR 0xA9 # ''dith piaf'') =
      CHR 0xC3 # CHR 0xA9 # ''dithpiaf''"
    by (simp add: eval_names eval_runes)
  have n: "normalizeArtistName ''Radiohead'' = ''radiohead''"
    "normalizeArtistName ''radiohead.'' = ''radiohead''"
    "normalizeArtistName ''AC-DC'' = ''acdc''"
    "normalizeArtistName ''R.E.M.'' = ''rem''"
    "normalizeArtistName ''ac dc'' = ''acdc''"
    "normalizeArtistName ''Muse'' = ''muse''"
    by (simp_all add: eval_names)
  have a: "DeduplicateArtists ?as =
      [exArtist ''Radiohead'' 90, exArtist ''AC-DC'' 50,
       exArtist (CHR 0xC3 # CHR 0x89 # ''dith Piaf'') 40, exArtist ''R.E.M.'' 10]"
    by (simp add: DeduplicateArtists_def exArtist_def seenGet_def n p1 p2)
  have k: "normalizeEventKey (exEvent ''Radiohead'' ''O2 Arena'' 1710460800000000000) =
      ''radiohead_o2arena_20240315''"
    by (simp add: normalizeEventKey_def exEvent_def exVenue_def eval_names eval_date)
  have k2: "normalizeEventKey (exEvent ''radiohead'' ''o2arena'' 1710500000000000000) =
      ''radiohead_o2arena_20240315''"
    by (simp add: normalizeEventKey_def exEvent_def exVenue_def eval_names eval_date)
  have k3: "normalizeEventKey (exEvent ''Radiohead'' ''O2 Arena'' 1710547200000000000) =
      ''radiohead_o2arena_20240316''"
    by (simp add: normalizeEventKey_def exEvent_def exVenue_def eval_names eval_date)
  have v: "ToLower (ReplaceAll [CHR 0xC3, CHR '' '', CHR 0x89] '' '' '''') =
      [CHR 0xC3, CHR 0xA9]"
    by (simp add: eval_names eval_runes)
  have d: "Format_20060102 \<lparr>unixNano = 1710460800000000000, zoneOffset = 0\<rparr> = ''20240315''"
    by (simp add: eval_date)
  have k4: "normalizeEventKey
      (exEvent ''Muse'' [CHR 0xC3, CHR '' '', CHR 0x89] 1710460800000000000) =
      ''muse_'' @ [CHR 0xC3, CHR 0xA9] @ ''_20240315''"
    by (simp add: normalizeEventKey_def exEvent_def exVenue_def v n d)
  have e: "DeduplicateEvents
     [exEvent ''Radiohead'' ''O2 Arena'' 1710460800000000000,
      exEvent ''radiohead'' ''o2arena'' 1710500000000000000,
      exEvent ''Radiohead'' ''O2 Arena'' 1710547200000000000] =
     [exEvent ''Radiohead'' ''O2 Arena'' 1710460800000000000,
      exEvent ''Radiohead'' ''O2 Arena'' 1710547200000000000]"
    by (simp add: DeduplicateEvents_def seenGet_def k k2 k3)
  from dedup_keeps_first_occurrences [of ?as, THEN conjunct1] a
  have f: "firstOccurrences (\<lambda>a. normalizeArtistName (Name a)) ?as =
      [exArtist ''Radiohead'' 90, exArtist ''AC-DC'' 50,
       exArtist (CHR 0xC3 # CHR 0x89 # ''dith Piaf'') 40, exArtist ''R.E.M.'' 10]"
    by simp
  from a f p1 p2 e k k4 show ?thesis
    by (intro conjI)
qed

section \<open>Rate limiters\<close>

lemma Sub_le_iff:
  "minDuration \<le> d \<Longrightarrow> d < maxDuration \<Longrightarrow> Sub t u \<le> d \<longleftrightarrow> unixNano t - unixNano u \<le> d"
  by (auto simp: Sub_def)

lemma day_in_range: "minDuration \<le> 24 * Hour \<and> 24 * Hour < maxDuration"
  by (simp add: minDuration_def maxDuration_def Hour_def Second_def)

lemma Sub_day: "Sub t u > 24 * Hour \<longleftrightarrow> unixNano t - unixNano u > 24 * Hour"
  using Sub_le_iff [of "24 * Hour" t u] day_in_range by auto

lemma resetWindow_within:
  "unixNano now - unixNano (windowStart r) \<le> 24 * Hour \<Longrightarrow> resetWindow r now = r"
  by (simp add: resetWindow_def Sub_day)

lemma resetWindow_after:
  "24 * Hour < unixNano now - unixNano (windowStart r) \<Longrightarrow>
     resetWindow r now = r\<lparr>requests := 0, windowStart := now\<rparr>"
  by (simp add: resetWindow_def Sub_day)

lemma Allow_below_limit:
  "unixNano now - unixNano (windowStart r) \<le> 24 * Hour \<Longrightarrow> requests r < dailyLimit r \<Longrightarrow>
     rateLimiter_Allow r now = (None, r\<lparr>requests := requests r + 1\<rparr>)"
  by (simp add: rateLimiter_Allow_def resetWindow_within)

lemma Allow_at_limit:
  "unixNano now - unixNano (windowStart r) \<le> 24 * Hour \<Longrightarrow> dailyLimit r \<le> requests r \<Longrightarrow>
     rateLimiter_Allow r now = (Some ErrRateLimitExceeded, r)"
  by (simp add: rateLimiter_Allow_def resetWindow_within)

lemma Allow_after_day:
  "24 * Hour < unixNano now - unixNano (windowStart r) \<Longrightarrow> 1 \<le> dailyLimit r \<Longrightarrow>
     rateLimiter_Allow r now = (None, r\<lparr>requests := 1, windowStart := now\<rparr>)"
  by (simp add: rateLimiter_Allow_def resetWindow_after)

lemma allowMany_within:
  "\<forall>t \<in> set ts. unixNano t - unixNano (windowStart r) \<le> 24 * Hour \<Longrightarrow>
   requests r + int (length ts) \<le> dailyLimit r \<Longrightarrow>
     allowMany r ts = (replicate (length ts) None, r\<lparr>requests := requests r + int (length ts)\<rparr>)"
proof (induction ts arbitrary: r)
  case Nil
  show ?case by simp
next
  case (Cons t ts)
  let ?r = "r\<lparr>requests := requests r + 1\<rparr>"
  have step: "rateLimiter_Allow r t = (None, ?r)"
    using Cons.prems by (intro Allow_below_limit) auto
  have "allowMany ?r ts =
      (replicate (length ts) None, ?r\<lparr>requests := requests ?r + int (length ts)\<rparr>)"
    using Cons.prems by (intro Cons.IH) auto
  with step show ?case by (simp add: add.assoc)
qed

text \<open>
  Claim C8, as the code has it. A limiter made by \<open>newRateLimiter limit\<close> at \<open>t0\<close> allows
  \<open>limit\<close> calls made within 24 hours of \<open>t0\<close>; the next call within the window is
  rejected with \<open>ErrRateLimitExceeded\<close> and leaves the counter and the window start as
  they are. When more than 24 hours have passed since the window start and the daily
  limit is at least 1, \<open>Allow\<close> starts a new window at \<open>now\<close>, succeeds and leaves the
  counter at 1.
\<close>

theorem daily_limiter_window:
  "(0 \<le> limit \<longrightarrow> length ts = nat limit \<longrightarrow>
      (\<forall>t \<in> set ts. unixNano t - unixNano t0 \<le> 24 * Hour) \<longrightarrow>
      unixNano t' - unixNano t0 \<le> 24 * Hour \<longrightarrow>
        allowMany (newRateLimiter limit t0) ts =
          (replicate (nat limit) None, (newRateLimiter limit t0)\<lparr>requests := limit\<rparr>) \<and>
        rateLimiter_Allow ((newRateLimiter limit t0)\<lparr>requests := limit\<rparr>) t' =
          (Some ErrRateLimitExceeded, (newRateLimiter limit t0)\<lparr>requests := limit\<rparr>)) \<and>
   (1 \<le> dailyLimit r \<longrightarrow> 24 * Hour < unixNano now - unixNano (windowStart r) \<longrightarrow>
      rateLimiter_Allow r now = (None, r\<lparr>requests := 1, windowStart := now\<rparr>))"
proof (intro conjI impI)
  assume h: "0 \<le> limit" "length ts = nat limit"
    "\<forall>t \<in> set ts. unixNano t - unixNano t0 \<le> 24 * Hour"
  have "allowMany (newRateLimiter limit t0) ts =
      (replicate (length ts) None,
       (newRateLimiter limit t0)\<lparr>requests := requests (newRateLimiter limit t0) + int (length ts)\<rparr>)"
    using h by (intro allowMany_within) (simp_all add: newRateLimiter_def)
  with h show "allowMany (newRateLimiter limit t0) ts =
      (replicate (nat limit) None, (newRateLimiter limit t0)\<lparr>requests := limit\<rparr>)"
    by (simp add: newRateLimiter_def)
next
  assume "unixNano t' - unixNano t0 \<le> 24 * Hour"
  then show "rateLimiter_Allow ((newRateLimiter limit t0)\<lparr>requests := limit\<rparr>) t' =
      (Some ErrRateLimitExceeded, (newRateLimiter limit t0)\<lparr>requests := limit\<rparr>)"
    by (intro Allow_at_limit) (simp_all add: newRateLimiter_def)
next
  assume "1 \<le> dailyLimit r" "24 * Hour < unixNano now - unixNano (windowStart r)"
  then show "rateLimiter_Allow r now = (None, r\<lparr>requests := 1, windowStart := now\<rparr>)"
    by (intro Allow_after_day)
qed

theorem daily_limiter_window_witness:
  "allowMany (newRateLimiter 2 (exTime 0)) [exTime Second, exTime Hour] =
     ([None, None], \<lparr>requests = 2, windowStart = exTime 0, dailyLimit = 2\<rparr>) \<and>
   rateLimiter_Allow \<lparr>requests = 2, windowStart = exTime 0, dailyLimit = 2\<rparr> (exTime (24 * Hour)) =
     (Some ErrRateLimitExceeded, \<lparr>requests = 2, windowStart = exTime 0, dailyLimit = 2\<rparr>) \<and>
   rateLimiter_Allow \<lparr>requests = 2, windowStart = exTime 0, dailyLimit = 2\<rparr>
       (exTime (24 * Hour + Second)) =
     (None, \<lparr>requests = 1, windowStart = exTime (24 * Hour + Second), dailyLimit = 2\<rparr>)"
  using daily_limiter_window [of 2 "[exTime Second, exTime Hour]" "exTime 0" "exTime (24 * Hour)"
      "\<lparr>requests = 2, windowStart = exTime 0, dailyLimit = 2\<rparr>" "exTime (24 * Hour + Second)"]
  by (simp add: exTime_def Hour_def Second_def newRateLimiter_def numeral_2_eq_2)

text \<open>
  The claim as it is written fails for a daily limit of 0: more than 24 hours after the
  window start the call is rejected, and the counter is 0.
\<close>

theorem daily_limiter_zero_limit_counterexample:
  "24 * Hour < unixNano (exTime (25 * Hour)) - unixNano (exTime 0) \<and>
   rateLimiter_Allow \<lparr>requests = 0, windowStart = exTime 0, dailyLimit = 0\<rparr> (exTime (25 * Hour)) =
     (Some ErrRateLimitExceeded,
      \<lparr>requests = 0, windowStart = exTime (25 * Hour), dailyLimit = 0\<rparr>)"
  by (simp add: rateLimiter_Allow_def resetWindow_def Sub_def exTime_def Hour_def Second_def
      minDuration_def maxDuration_def)

lemma wrap64_id: "minDuration \<le> x \<Longrightarrow> x \<le> maxDuration \<Longrightarrow> wrap64 x = x"
  by (simp add: wrap64_def minDuration_def maxDuration_def)

lemma throttle_elapsed:
  assumes lag: "0 \<le> lag" and iv: "interval r \<le> maxDuration"
    and mono: "unixNano (lastRequest r) \<le> unixNano now"
  shows "interval r \<le> unixNano now + (max 0 (sleepTime r now) + lag) - unixNano (lastRequest r)"
proof (cases "Sub now (lastRequest r) < interval r")
  case True
  let ?d = "unixNano now - unixNano (lastRequest r)"
  have d0: "0 \<le> ?d"
    using mono by simp
  then have sub: "Sub now (lastRequest r) = min maxDuration ?d"
    by (simp add: Sub_def minDuration_def maxDuration_def)
  with True iv have d_lt: "?d < interval r"
    by (auto simp: min_def split: if_splits)
  with sub iv have sub': "Sub now (lastRequest r) = ?d"
    by simp
  have "wrap64 (interval r - ?d) = interval r - ?d"
    using d0 d_lt iv by (intro wrap64_id) (auto simp: minDuration_def maxDuration_def)
  with True sub' have "sleepTime r now = interval r - ?d"
    by (simp add: sleepTime_def)
  with lag d_lt show ?thesis by simp
next
  case False
  have "Sub now (lastRequest r) \<le> unixNano now - unixNano (lastRequest r)"
    using mono by (simp add: Sub_def minDuration_def maxDuration_def)
  with False lag show ?thesis by (simp add: sleepTime_def)
qed

text \<open>
  Claim C9. The throttle never rejects: in every state and at every reading of the clock
  \<open>Allow\<close> returns no error, and it sets the time of the last request to the second
  reading of the clock. That reading is at least the interval after the previous
  request, whenever \<open>Sleep\<close> sleeps for at least the time asked (\<open>0 \<le> lag\<close>) and the
  previous request is not later than the first reading of the clock, as it is with the
  monotonic clock of \<open>time.Now\<close>.
\<close>

theorem throttle_never_rejects:
  "fst (musicBrainzRateLimiter_Allow r now lag) = None \<and>
   lastRequest (snd (musicBrainzRateLimiter_Allow r now lag)) =
     Add now (max 0 (sleepTime r now) + lag) \<and>
   interval (snd (musicBrainzRateLimiter_Allow r now lag)) = interval r \<and>
   (0 \<le> lag \<longrightarrow> interval r \<le> maxDuration \<longrightarrow>
    unixNano (lastRequest r) \<le> unixNano now \<longrightarrow>
      interval r \<le>
        unixNano (lastRequest (snd (musicBrainzRateLimiter_Allow r now lag))) -
        unixNano (lastRequest r))"
  using throttle_elapsed [of lag r now]
  by (simp add: musicBrainzRateLimiter_Allow_def Add_def)

theorem throttle_never_rejects_witness:
  "musicBrainzRateLimiter_Allow \<lparr>lastRequest = exTime (5 * Second), interval = Second\<rparr>
     (exTime (5 * Second + 400000000)) 0 =
   (None, \<lparr>lastRequest = exTime (6 * Second), interval = Second\<rparr>) \<and>
   musicBrainzRateLimiter_Allow \<lparr>lastRequest = exTime (5 * Second), interval = Second\<rparr>
     (exTime (9 * Second)) 7 =
   (None, \<lparr>lastRequest = exTime (9 * Second + 7), interval = Second\<rparr>)"
proof -
  let ?r = "\<lparr>lastRequest = exTime (5 * Second), interval = Second\<rparr>"
  have s1: "sleepTime ?r (exTime (5 * Second + 400000000)) = 600000000"
    by (simp add: sleepTime_def Sub_def wrap64_def exTime_def Second_def
        minDuration_def maxDuration_def)
  have s2: "sleepTime ?r (exTime (9 * Second)) = 0"
    by (simp add: sleepTime_def Sub_def wrap64_def exTime_def Second_def
        minDuration_def maxDuration_def)
  have a: "Add (exTime (5 * Second + 400000000)) 600000000 = exTime (6 * Second)"
    by (simp add: Add_def exTime_def Second_def)
  have b: "Add (exTime (9 * Second)) 7 = exTime (9 * Second + 7)"
    by (simp add: Add_def exTime_def)
  from throttle_never_rejects [of ?r "exTime (5 * Second + 400000000)" 0]
    throttle_never_rejects [of ?r "exTime (9 * Second)" 7]
  show ?thesis
    by (simp add: musicBrainzRateLimiter_Allow_def s1 s2 a b)
qed

section \<open>The result cache\<close>

lemma GetArtists_None_iff:
  "GetArtists c now q l = None \<longleftrightarrow>
     artistCache c (artistCacheKey q l) = None \<or>
     (\<exists>e. artistCache c (artistCacheKey q l) = Some e \<and> After now (ExpiresAt e))"
  by (auto simp: GetArtists_def split: option.splits)

lemma GetEvents_None_iff:
  "GetEvents c now a ci l = None \<longleftrightarrow>
     eventCache c (eventCacheKey a ci l) = None \<or>
     (\<exists>e. eventCache c (eventCacheKey a ci l) = Some e \<and> After now (ExpiresAt e))"
  by (auto simp: GetEvents_def split: option.splits)

lemma GetArtists_Some_iff:
  "GetArtists c now q l = Some r \<longleftrightarrow>
     (\<exists>e. artistCache c (artistCacheKey q l) = Some e \<and> \<not> After now (ExpiresAt e) \<and> r = Results e)"
  by (auto simp: GetArtists_def split: option.splits)

lemma GetEvents_Some_iff:
  "GetEvents c now a ci l = Some r \<longleftrightarrow>
     (\<exists>e. eventCache c (eventCacheKey a ci l) = Some e \<and> \<not> After now (ExpiresAt e) \<and> r = Results e)"
  by (auto simp: GetEvents_def split: option.splits)

lemma SetArtists_entry:
  "artistCache (SetArtists c now q l r) (artistCacheKey q l) =
     Some \<lparr>Results = r, ExpiresAt = Add now (ttl c)\<rparr>"
  by (simp add: SetArtists_def)

lemma SetEvents_entry:
  "eventCache (SetEvents c now a ci l r) (eventCacheKey a ci l) =
     Some \<lparr>Results = r, ExpiresAt = Add now (ttl c)\<rparr>"
  by (simp add: SetEvents_def)

lemma SetArtists_others:
  "k \<noteq> artistCacheKey q l \<Longrightarrow> artistCache (SetArtists c now q l r) k = artistCache c k"
  "eventCache (SetArtists c now q l r) = eventCache c"
  "ttl (SetArtists c now q l r) = ttl c"
  by (simp_all add: SetArtists_def)

lemma SetEvents_others:
  "k \<noteq> eventCacheKey a ci l \<Longrightarrow> eventCache (SetEvents c now a ci l r) k = eventCache c k"
  "artistCache (SetEvents c now a ci l r) = artistCache c"
  "ttl (SetEvents c now a ci l r) = ttl c"
  by (simp_all add: SetEvents_def)

lemma SearchArtists_miss:
  "cachedArtists m (tGet clk) q (effectiveLimit l) = None \<Longrightarrow>
   0 < MaxConcurrentRequests (config m) \<Longrightarrow>
     SearchArtists sa m clk q l arr =
       (Return (aggregateArtists sa (config m) clk (effectiveLimit l) arr) None,
        m\<lparr>cache := map_option
          (\<lambda>c. SetArtists c (tSet clk) q (effectiveLimit l)
                 (aggregateArtists sa (config m) clk (effectiveLimit l) arr))
          (cache m)\<rparr>)"
  by (simp add: SearchArtists_def)

lemma SearchArtists_hit:
  "cachedArtists m (tGet clk) q (effectiveLimit l) = Some r \<Longrightarrow>
     SearchArtists sa m clk q l arr = (Return r None, m)"
  by (simp add: SearchArtists_def)

lemma searchEventsKeyed_miss:
  "cachedEvents m (tGet clk) a ci (effectiveLimit l) = None \<Longrightarrow>
   0 < MaxConcurrentRequests (config m) \<Longrightarrow>
     searchEventsKeyed se m clk a ci l arr =
       (Return (aggregateEvents se (config m) clk (effectiveLimit l) arr) None,
        m\<lparr>cache := map_option
          (\<lambda>c. SetEvents c (tSet clk) a ci (effectiveLimit l)
                 (aggregateEvents se (config m) clk (effectiveLimit l) arr))
          (cache m)\<rparr>)"
  by (simp add: searchEventsKeyed_def)

lemma searchEventsKeyed_hit:
  "cachedEvents m (tGet clk) a ci (effectiveLimit l) = Some r \<Longrightarrow>
     searchEventsKeyed se m clk a ci l arr = (Return r None, m)"
  by (simp add: searchEventsKeyed_def)

lemma SearchArtists_miss_returned:
  assumes "cachedArtists m (tGet clk) q (effectiveLimit l) = None"
    and "returned (fst (SearchArtists sa m clk q l arr)) = Some r"
  shows "r = aggregateArtists sa (config m) clk (effectiveLimit l) arr"
    and "SearchArtists sa m clk q l arr =
      (Return r None,
       m\<lparr>cache := map_option (\<lambda>c. SetArtists c (tSet clk) q (effectiveLimit l) r) (cache m)\<rparr>)"
  using assms by (auto simp: SearchArtists_def split: if_splits)

lemma searchEventsKeyed_miss_returned:
  assumes "cachedEvents m (tGet clk) a ci (effectiveLimit l) = None"
    and "returned (fst (searchEventsKeyed se m clk a ci l arr)) = Some r"
  shows "r = aggregateEvents se (config m) clk (effectiveLimit l) arr"
    and "searchEventsKeyed se m clk a ci l arr =
      (Return r None,
       m\<lparr>cache := map_option (\<lambda>c. SetEvents c (tSet clk) a ci (effectiveLimit l) r) (cache m)\<rparr>)"
  using assms by (auto simp: searchEventsKeyed_def split: if_splits)

lemma SearchArtists_again:
  assumes c: "cache m = Some c"
    and miss: "cachedArtists m (tGet clk1) q (effectiveLimit l) = None"
    and ret: "returned (fst (SearchArtists sa m clk1 q l arr1)) = Some r"
    and fresh: "\<not> After (tGet clk2) (Add (tSet clk1) (ttl c))"
  shows "SearchArtists sa (snd (SearchArtists sa m clk1 q l arr1)) clk2 q l arr2 =
           SearchArtists sa m clk1 q l arr1"
proof -
  let ?m1 = "m\<lparr>cache := Some (SetArtists c (tSet clk1) q (effectiveLimit l) r)\<rparr>"
  have first: "SearchArtists sa m clk1 q l arr1 = (Return r None, ?m1)"
    using SearchArtists_miss_returned(2) [OF miss ret] c by simp
  have "cachedArtists ?m1 (tGet clk2) q (effectiveLimit l) = Some r"
    using fresh by (simp add: cachedArtists_def GetArtists_def SetArtists_entry)
  then have "SearchArtists sa ?m1 clk2 q l arr2 = (Return r None, ?m1)"
    by (rule SearchArtists_hit)
  with first show ?thesis by simp
qed

lemma searchEventsKeyed_again:
  assumes c: "cache m = Some c"
    and miss: "cachedEvents m (tGet clk1) a ci (effectiveLimit l) = None"
    and ret: "returned (fst (searchEventsKeyed se m clk1 a ci l arr1)) = Some r"
    and fresh: "\<not> After (tGet clk2) (Add (tSet clk1) (ttl c))"
    and key: "eventCacheKey a' ci' (effectiveLimit l') = eventCacheKey a ci (effectiveLimit l)"
  shows "searchEventsKeyed se (snd (searchEventsKeyed se m clk1 a ci l arr1)) clk2 a' ci' l' arr2 =
           searchEventsKeyed se m clk1 a ci l arr1"
proof -
  let ?m1 = "m\<lparr>cache := Some (SetEvents c (tSet clk1) a ci (effectiveLimit l) r)\<rparr>"
  have first: "searchEventsKeyed se m clk1 a ci l arr1 = (Return r None, ?m1)"
    using searchEventsKeyed_miss_returned(2) [OF miss ret] c by simp
  have "cachedEvents ?m1 (tGet clk2) a' ci' (effectiveLimit l') = Some r"
    using fresh by (simp add: cachedEvents_def GetEvents_def key SetEvents_entry)
  then have "searchEventsKeyed se ?m1 clk2 a' ci' l' arr2 = (Return r None, ?m1)"
    by (rule searchEventsKeyed_hit)
  with first show ?thesis by simp
qed

lemma SearchArtists_twice_hit:
  assumes c: "cache m = Some c"
    and e: "artistCache c (artistCacheKey q (effectiveLimit l)) = Some e"
    and fresh: "\<not> After (tGet clk) (ExpiresAt e)"
  shows "SearchArtists sa m clk q l arr = (Return (Results e) None, m)"
  using assms by (intro SearchArtists_hit) (simp add: cachedArtists_def GetArtists_def)

text \<open>
  Claim C7. \<open>GetArtists\<close> and \<open>GetEvents\<close> return no entry exactly when the key is not
  in the map or the clock is after \<open>ExpiresAt\<close> of its entry; they do not change the
  cache. \<open>SetArtists\<close> and \<open>SetEvents\<close> put the results under the key whatever was
  there, with \<open>ExpiresAt\<close> the clock plus the TTL. Hence, with a cache, take a
  \<open>SearchArtists\<close> that finds no entry and returns, and a second one with the same query
  and limit whose lookup is not after the write of the first plus the TTL: the second
  returns the results record that the first returned, which it computed from its
  sources, whatever the sources would answer now, and leaves the state as it is. A
  search that finds an entry returns the results of the entry, and so does every later
  one until the entry expires.
\<close>

theorem cache_get_set_and_repeat:
  "(GetArtists c now q l = None \<longleftrightarrow>
      artistCache c (artistCacheKey q l) = None \<or>
      (\<exists>e. artistCache c (artistCacheKey q l) = Some e \<and> After now (ExpiresAt e))) \<and>
   (GetEvents c now a ci l = None \<longleftrightarrow>
      eventCache c (eventCacheKey a ci l) = None \<or>
      (\<exists>e. eventCache c (eventCacheKey a ci l) = Some e \<and> After now (ExpiresAt e))) \<and>
   artistCache (SetArtists c now q l r) (artistCacheKey q l) =
      Some \<lparr>Results = r, ExpiresAt = Add now (ttl c)\<rparr> \<and>
   eventCache (SetEvents c now a ci l r) (eventCacheKey a ci l) =
      Some \<lparr>Results = r, ExpiresAt = Add now (ttl c)\<rparr> \<and>
   (cache m = Some c \<longrightarrow>
    cachedArtists m (tGet clk1) q (effectiveLimit l) = None \<longrightarrow>
    returned (fst (SearchArtists sa m clk1 q l arr1)) = Some r1 \<longrightarrow>
    \<not> After (tGet clk2) (Add (tSet clk1) (ttl c)) \<longrightarrow>
      SearchArtists sa (snd (SearchArtists sa m clk1 q l arr1)) clk2 q l arr2 =
        SearchArtists sa m clk1 q l arr1 \<and>
      fst (SearchArtists sa m clk1 q l arr1) = Return r1 None \<and>
      r1 = aggregateArtists sa (config m) clk1 (effectiveLimit l) arr1) \<and>
   (cache m = Some c \<longrightarrow>
    artistCache c (artistCacheKey q (effectiveLimit l)) = Some e \<longrightarrow>
    \<not> After (tGet clk1) (ExpiresAt e) \<longrightarrow> \<not> After (tGet clk2) (ExpiresAt e) \<longrightarrow>
      SearchArtists sa m clk1 q l arr1 = (Return (Results e) None, m) \<and>
      SearchArtists sa m clk2 q l arr2 = (Return (Results e) None, m))"
proof (intro conjI impI)
  show "GetArtists c now q l = None \<longleftrightarrow>
      artistCache c (artistCacheKey q l) = None \<or>
      (\<exists>e. artistCache c (artistCacheKey q l) = Some e \<and> After now (ExpiresAt e))"
    by (rule GetArtists_None_iff)
  show "GetEvents c now a ci l = None \<longleftrightarrow>
      eventCache c (eventCacheKey a ci l) = None \<or>
      (\<exists>e. eventCache c (eventCacheKey a ci l) = Some e \<and> After now (ExpiresAt e))"
    by (rule GetEvents_None_iff)
  show "artistCache (SetArtists c now q l r) (artistCacheKey q l) =
      Some \<lparr>Results = r, ExpiresAt = Add now (ttl c)\<rparr>"
    by (rule SetArtists_entry)
  show "eventCache (SetEvents c now a ci l r) (eventCacheKey a ci l) =
      Some \<lparr>Results = r, ExpiresAt = Add now (ttl c)\<rparr>"
    by (rule SetEvents_entry)
  {
    assume h: "cache m = Some c"
      "cachedArtists m (tGet clk1) q (effectiveLimit l) = None"
      "returned (fst (SearchArtists sa m clk1 q l arr1)) = Some r1"
      "\<not> After (tGet clk2) (Add (tSet clk1) (ttl c))"
    show "SearchArtists sa (snd (SearchArtists sa m clk1 q l arr1)) clk2 q l arr2 =
        SearchArtists sa m clk1 q l arr1"
      using h by (rule SearchArtists_again)
    show "fst (SearchArtists sa m clk1 q l arr1) = Return r1 None"
      using SearchArtists_miss_returned(2) [OF h(2,3)] by simp
    show "r1 = aggregateArtists sa (config m) clk1 (effectiveLimit l) arr1"
      using h(2,3) by (rule SearchArtists_miss_returned(1))
  }
  {
    assume h: "cache m = Some c"
      "artistCache c (artistCacheKey q (effectiveLimit l)) = Some e"
    {
      assume "\<not> After (tGet clk1) (ExpiresAt e)"
      with h show "SearchArtists sa m clk1 q l arr1 = (Return (Results e) None, m)"
        by (rule SearchArtists_twice_hit)
    }
    {
      assume "\<not> After (tGet clk2) (ExpiresAt e)"
      with h show "SearchArtists sa m clk2 q l arr2 = (Return (Results e) None, m)"
        by (rule SearchArtists_twice_hit)
    }
  }
qed

theorem cache_get_set_and_repeat_witness:
  "SearchArtists insertionSort
     (snd (SearchArtists insertionSort (NewMegaAggregator (exConfig True True)) (exClock 0)
        ''q'' 10 []))
     (exClock (30 * 60 * Second)) ''q'' 10 [exArtists ''spotify'' [exArtist ''Radiohead'' 90]] =
   SearchArtists insertionSort (NewMegaAggregator (exConfig True True)) (exClock 0) ''q'' 10 [] \<and>
   fst (SearchArtists insertionSort (NewMegaAggregator (exConfig True True)) (exClock 0)
        ''q'' 10 []) =
   Return (aggregateArtists insertionSort (config (NewMegaAggregator (exConfig True True)))
        (exClock 0) 10 []) None"
proof -
  let ?m = "NewMegaAggregator (exConfig True True)"
  have c: "cache ?m = Some (NewAggregatorCache Hour)"
    by (simp add: NewMegaAggregator_def withDefaults_def exConfig_def)
  have miss: "cachedArtists ?m (tGet (exClock 0)) ''q'' (effectiveLimit 10) = None"
    by (simp add: cachedArtists_def c GetArtists_def NewAggregatorCache_def)
  have conc: "0 < MaxConcurrentRequests (config ?m)"
    by (simp add: NewMegaAggregator_def withDefaults_def exConfig_def)
  have ret: "returned (fst (SearchArtists insertionSort ?m (exClock 0) ''q'' 10 [])) =
      Some (aggregateArtists insertionSort (config ?m) (exClock 0) (effectiveLimit 10) [])"
    using SearchArtists_miss [OF miss conc, of insertionSort "[]"] by simp
  have fresh: "\<not> After (tGet (exClock (30 * 60 * Second)))
      (Add (tSet (exClock 0)) (ttl (NewAggregatorCache Hour)))"
    by (simp add: After_def Add_def exClock_def exTime_def NewAggregatorCache_def
        Hour_def Second_def)
  from cache_get_set_and_repeat [where c = "NewAggregatorCache Hour" and m = ?m
      and ?clk1.0 = "exClock 0" and q = "''q''" and l = 10 and ?clk2.0 = "exClock (30 * 60 * Second)"
      and sa = insertionSort and ?arr1.0 = "[]"
      and ?arr2.0 = "[exArtists ''spotify'' [exArtist ''Radiohead'' 90]]"
      and ?r1.0 = "aggregateArtists insertionSort (config ?m) (exClock 0) (effectiveLimit 10) []"]
    c miss ret fresh
  show ?thesis
    by (simp add: effectiveLimit_def)
qed

text \<open>
  Claim C10. The key of the event cache joins the artist name, the city and the limit
  with underscores, so it does not tell \<open>("a_b", "")\<close> from \<open>("a", "b_")\<close>. The two
  searches meet on such keys: \<open>SearchEvents\<close> for the artist \<open>"_" @ z\<close> and
  \<open>SearchEventsByLocation\<close> for the city \<open>z @ "_"\<close> use the same key, and each of them
  returns, from the cache, the results that the other one has stored.
\<close>

theorem event_cache_key_collision:
  "eventCacheKey ''a_b'' '''' l = eventCacheKey ''a'' ''b_'' l \<and>
   (''a_b'', '''') \<noteq> (''a'', ''b_'') \<and>
   eventCacheKey (''_'' @ z) '''' l = eventCacheKey '''' (z @ ''_'') l \<and>
   (cache m = Some c \<longrightarrow>
    cachedEvents m (tGet clk1) '''' (z @ ''_'') (effectiveLimit l) = None \<longrightarrow>
    returned (fst (SearchEventsByLocation se m clk1 (z @ ''_'') country l arr1)) = Some r \<longrightarrow>
    \<not> After (tGet clk2) (Add (tSet clk1) (ttl c)) \<longrightarrow>
      fst (SearchEvents se (snd (SearchEventsByLocation se m clk1 (z @ ''_'') country l arr1))
             clk2 (''_'' @ z) l arr2) = Return r None \<and>
      r = aggregateEvents se (config m) clk1 (effectiveLimit l) arr1) \<and>
   (cache m = Some c \<longrightarrow>
    cachedEvents m (tGet clk1) (''_'' @ z) '''' (effectiveLimit l) = None \<longrightarrow>
    returned (fst (SearchEvents se m clk1 (''_'' @ z) l arr1)) = Some r \<longrightarrow>
    \<not> After (tGet clk2) (Add (tSet clk1) (ttl c)) \<longrightarrow>
      fst (SearchEventsByLocation se (snd (SearchEvents se m clk1 (''_'' @ z) l arr1))
             clk2 (z @ ''_'') country l arr2) = Return r None \<and>
      r = aggregateEvents se (config m) clk1 (effectiveLimit l) arr1)"
proof (intro conjI impI)
  show "eventCacheKey ''a_b'' '''' l = eventCacheKey ''a'' ''b_'' l"
    by (simp add: eventCacheKey_def)
  show "(''a_b'', '''') \<noteq> (''a'', ''b_'')"
    by simp
  show k: "eventCacheKey (''_'' @ z) '''' l = eventCacheKey '''' (z @ ''_'') l" for l
    by (simp add: eventCacheKey_def)
  {
    assume h: "cache m = Some c"
      "cachedEvents m (tGet clk1) '''' (z @ ''_'') (effectiveLimit l) = None"
      "returned (fst (SearchEventsByLocation se m clk1 (z @ ''_'') country l arr1)) = Some r"
      "\<not> After (tGet clk2) (Add (tSet clk1) (ttl c))"
    from h(3) have ret: "returned (fst (searchEventsKeyed se m clk1 '''' (z @ ''_'') l arr1)) = Some r"
      by (simp add: SearchEventsByLocation_def)
    from searchEventsKeyed_again [OF h(1,2) ret h(4) k, of arr2]
      searchEventsKeyed_miss_returned(2) [OF h(2) ret]
    show "fst (SearchEvents se (snd (SearchEventsByLocation se m clk1 (z @ ''_'') country l arr1))
             clk2 (''_'' @ z) l arr2) = Return r None"
      by (simp add: SearchEvents_def SearchEventsByLocation_def)
    from h(2) ret show "r = aggregateEvents se (config m) clk1 (effectiveLimit l) arr1"
      by (rule searchEventsKeyed_miss_returned(1))
  }
  {
    assume h: "cache m = Some c"
      "cachedEvents m (tGet clk1) (''_'' @ z) '''' (effectiveLimit l) = None"
      "returned (fst (SearchEvents se m clk1 (''_'' @ z) l arr1)) = Some r"
      "\<not> After (tGet clk2) (Add (tSet clk1) (ttl c))"
    from h(3) have ret: "returned (fst (searchEventsKeyed se m clk1 (''_'' @ z) '''' l arr1)) = Some r"
      by (simp add: SearchEvents_def)
    from searchEventsKeyed_again [OF h(1,2) ret h(4) k [symmetric], of arr2]
      searchEventsKeyed_miss_returned(2) [OF h(2) ret]
    show "fst (SearchEventsByLocation se (snd (SearchEvents se m clk1 (''_'' @ z) l arr1))
             clk2 (z @ ''_'') country l arr2) = Return r None"
      by (simp add: SearchEvents_def SearchEventsByLocation_def)
    from h(2) ret show "r = aggregateEvents se (config m) clk1 (effectiveLimit l) arr1"
      by (rule searchEventsKeyed_miss_returned(1))
  }
qed

theorem event_cache_key_collision_witness:
  "fst (SearchEvents insertionSort
          (snd (SearchEventsByLocation insertionSort
             (RegisterEventSource (NewMegaAggregator (exConfig True True)) ''songkick'')
             (exClock 0) ''x_'' ''DE'' 10
             [exEvents ''songkick'' [exEvent ''Moderat'' ''Berghain'' 5]]))
          (exClock Second) ''_x'' 10 []) =
   Return (aggregateEvents insertionSort
      (config (RegisterEventSource (NewMegaAggregator (exConfig True True)) ''songkick''))
      (exClock 0) 10 [exEvents ''songkick'' [exEvent ''Moderat'' ''Berghain'' 5]]) None"
proof -
  let ?m = "RegisterEventSource (NewMegaAggregator (exConfig True True)) ''songkick''"
  have c: "cache ?m = Some (NewAggregatorCache Hour)"
    by (simp add: RegisterEventSource_def NewMegaAggregator_def withDefaults_def exConfig_def)
  have miss: "cachedEvents ?m (tGet (exClock 0)) '''' (''x'' @ ''_'') (effectiveLimit 10) = None"
    by (simp add: cachedEvents_def c GetEvents_def NewAggregatorCache_def)
  have conc: "0 < MaxConcurrentRequests (config ?m)"
    by (simp add: RegisterEventSource_def NewMegaAggregator_def withDefaults_def exConfig_def)
  have ret: "returned (fst (SearchEventsByLocation insertionSort ?m (exClock 0) (''x'' @ ''_'') ''DE'' 10
        [exEvents ''songkick'' [exEvent ''Moderat'' ''Berghain'' 5]])) =
      Some (aggregateEvents insertionSort (config ?m) (exClock 0) (effectiveLimit 10)
        [exEvents ''songkick'' [exEvent ''Moderat'' ''Berghain'' 5]])"
    using searchEventsKeyed_miss [OF miss conc, of insertionSort]
    by (simp add: SearchEventsByLocation_def)
  have fresh: "\<not> After (tGet (exClock Second))
      (Add (tSet (exClock 0)) (ttl (NewAggregatorCache Hour)))"
    by (simp add: After_def Add_def exClock_def exTime_def NewAggregatorCache_def
        Hour_def Second_def)
  from event_cache_key_collision [where l = 10 and z = "''x''" and m = ?m
      and c = "NewAggregatorCache Hour" and ?clk1.0 = "exClock 0" and ?clk2.0 = "exClock Second"
      and se = insertionSort and country = "''DE''"
      and ?arr1.0 = "[exEvents ''songkick'' [exEvent ''Moderat'' ''Berghain'' 5]]"
      and ?arr2.0 = "[]"
      and r = "aggregateEvents insertionSort (config ?m) (exClock 0) (effectiveLimit 10)
        [exEvents ''songkick'' [exEvent ''Moderat'' ''Berghain'' 5]]"] c miss ret fresh
  show ?thesis
    by (simp add: effectiveLimit_def)
qed

section \<open>Cache keys determine the limit\<close>

lemma below_ten: "(d::nat) < 10 \<Longrightarrow> d \<in> {0, 1, 2, 3, 4, 5, 6, 7, 8, 9}"
  by auto

lemma upt_ten: "[0 ..< 10] = [0, 1, 2, 3, 4, 5, 6, 7, 8, 9 :: nat]"
  by (simp add: upt_rec)

lemma digit_val_char: "d < 10 \<Longrightarrow> digit_val (digit_char d) = d"
  using below_ten [of d] by (auto simp: digit_val_def digit_char_def upt_ten)

lemma digit_char_set: "d < 10 \<Longrightarrow> digit_char d \<in> set ''0123456789''"
  using below_ten [of d] by (auto simp: digit_char_def)

lemma digits_set: "set (digits n) \<subseteq> set ''0123456789''"
proof (induction n rule: digits.induct)
  case (1 n)
  show ?case
  proof (cases "n < 10")
    case True
    then show ?thesis
      using digit_char_set [of n] by (simp add: digits_lt10)
  next
    case False
    then have "set (digits (n div 10)) \<subseteq> set ''0123456789''"
      by (rule "1.IH")
    moreover have "digit_char (n mod 10) \<in> set ''0123456789''"
      by (rule digit_char_set) simp
    ultimately show ?thesis
      using False by (simp add: digits_ge10)
  qed
qed

lemma undigits_snoc: "undigits (s @ [c]) = 10 * undigits s + digit_val c"
  by (simp add: undigits_def)

lemma undigits_digits: "undigits (digits n) = n"
proof (induction n rule: digits.induct)
  case (1 n)
  show ?case
  proof (cases "n < 10")
    case True
    then show ?thesis
      by (simp add: digits_lt10 undigits_def digit_val_char)
  next
    case False
    then have "undigits (digits (n div 10)) = n div 10"
      by (rule "1.IH")
    then show ?thesis
      using False by (simp add: digits_ge10 undigits_snoc digit_val_char)
  qed
qed

lemma digits_inj: "digits a = digits b \<Longrightarrow> a = b"
  by (metis undigits_digits)

lemma minus_not_digit: "CHR ''-'' \<notin> set (digits n)"
  using digits_set [of n] by auto

lemma underscore_not_digit: "CHR ''_'' \<notin> set (digits n)"
  using digits_set [of n] by auto

lemma digits_not_minus: "digits n \<noteq> CHR ''-'' # s"
  using minus_not_digit [of n] by auto

lemma itoa_inj: "itoa i = itoa j \<Longrightarrow> i = j"
proof -
  assume eq: "itoa i = itoa j"
  consider "i < 0" "j < 0" | "i < 0" "0 \<le> j" | "0 \<le> i" "j < 0" | "0 \<le> i" "0 \<le> j"
    by linarith
  then show ?thesis
  proof cases
    case 1
    with eq have "nat (- i) = nat (- j)"
      by (simp add: itoa_def digits_inj)
    with 1 show ?thesis by simp
  next
    case 2
    with eq digits_not_minus [of "nat j" "digits (nat (- i))"] show ?thesis
      by (simp add: itoa_def)
  next
    case 3
    with eq digits_not_minus [of "nat i" "digits (nat (- j))"] show ?thesis
      by (simp add: itoa_def)
  next
    case 4
    with eq have "nat i = nat j"
      by (simp add: itoa_def digits_inj)
    with 4 show ?thesis by simp
  qed
qed

lemma itoa_no_underscore: "CHR ''_'' \<notin> set (itoa i)"
  using underscore_not_digit by (simp add: itoa_def)

lemma takeWhile_upto_separator:
  "c \<notin> set zs \<Longrightarrow> takeWhile (\<lambda>x. x \<noteq> c) (zs @ c # rest) = zs"
  by (induction zs) auto

lemma after_last_separator:
  assumes eq: "xs @ c # ys = xs' @ c # ys'" and "c \<notin> set ys" and "c \<notin> set ys'"
  shows "ys = ys'"
proof -
  from eq have "rev (xs @ c # ys) = rev (xs' @ c # ys')"
    by (rule arg_cong)
  then have "rev ys @ c # rev xs = rev ys' @ c # rev xs'"
    by simp
  then have "takeWhile (\<lambda>x. x \<noteq> c) (rev ys @ c # rev xs) =
      takeWhile (\<lambda>x. x \<noteq> c) (rev ys' @ c # rev xs')"
    by (rule arg_cong)
  moreover have "takeWhile (\<lambda>x. x \<noteq> c) (rev ys @ c # rev xs) = rev ys"
    using assms(2) by (intro takeWhile_upto_separator) simp
  moreover have "takeWhile (\<lambda>x. x \<noteq> c) (rev ys' @ c # rev xs') = rev ys'"
    using assms(3) by (intro takeWhile_upto_separator) simp
  ultimately have "rev ys = rev ys'"
    by (simp only:)
  then show ?thesis
    by (simp only: rev_is_rev_conv)
qed

lemma artistCacheKey_limit: "artistCacheKey q l = artistCacheKey q' l' \<Longrightarrow> l = l'"
proof -
  assume "artistCacheKey q l = artistCacheKey q' l'"
  then have "q @ CHR ''_'' # itoa l = q' @ CHR ''_'' # itoa l'"
    by (simp add: artistCacheKey_def)
  then have "itoa l = itoa l'"
    by (rule after_last_separator) (rule itoa_no_underscore)+
  then show ?thesis by (rule itoa_inj)
qed

lemma eventCacheKey_limit: "eventCacheKey a ci l = eventCacheKey a' ci' l' \<Longrightarrow> l = l'"
proof -
  assume "eventCacheKey a ci l = eventCacheKey a' ci' l'"
  then have "(a @ ''_'' @ ci) @ CHR ''_'' # itoa l = (a' @ ''_'' @ ci') @ CHR ''_'' # itoa l'"
    by (simp add: eventCacheKey_def)
  then have "itoa l = itoa l'"
    by (rule after_last_separator) (rule itoa_no_underscore)+
  then show ?thesis by (rule itoa_inj)
qed

section \<open>Sorting\<close>

lemma mset_insertSorted: "mset (insertSorted lt x ys) = add_mset x (mset ys)"
  by (induction ys) auto

lemma set_insertSorted: "set (insertSorted lt x ys) = insert x (set ys)"
  by (induction ys) auto

lemma sorted_insertSorted:
  assumes "strictWeakOrder lt" and "sorted_wrt (\<lambda>a b. \<not> lt b a) ys"
  shows "sorted_wrt (\<lambda>a b. \<not> lt b a) (insertSorted lt x ys)"
  using assms(2)
proof (induction ys)
  case Nil
  show ?case by simp
next
  case (Cons y ys)
  have irr: "\<And>a. \<not> lt a a"
    and tr: "\<And>a b c. lt a b \<Longrightarrow> lt b c \<Longrightarrow> lt a c"
    and ntr: "\<And>a b c. \<not> lt a b \<Longrightarrow> \<not> lt b c \<Longrightarrow> \<not> lt a c"
    using assms(1) unfolding strictWeakOrder_def by blast+
  show ?case
  proof (cases "lt y x")
    case True
    then have "\<not> lt x y"
      using irr tr by blast
    with True Cons show ?thesis
      by (auto simp: set_insertSorted)
  next
    case False
    have "\<not> lt z x" if "z \<in> set ys" for z
    proof -
      from that Cons.prems have "\<not> lt z y" by auto
      with False show ?thesis using ntr by blast
    qed
    with False Cons.prems show ?thesis by auto
  qed
qed

lemma mset_insertionSort: "mset (insertionSort lt xs) = mset xs"
  unfolding insertionSort_def by (induction xs) (simp_all add: mset_insertSorted)

lemma sorted_insertionSort:
  "strictWeakOrder lt \<Longrightarrow> sorted_wrt (\<lambda>a b. \<not> lt b a) (insertionSort lt xs)"
  unfolding insertionSort_def by (induction xs) (simp_all add: sorted_insertSorted)

lemma insertionSort_ok: "sortSliceOk insertionSort"
  by (simp add: sortSliceOk_def mset_insertionSort sorted_insertionSort)

lemma strictWeakOrder_artistLess: "strictWeakOrder artistLess"
  by (auto simp: strictWeakOrder_def artistLess_def)

lemma strictWeakOrder_eventLess: "strictWeakOrder (eventLess now)"
  unfolding strictWeakOrder_def eventLess_def Let_def After_def Before_def
  by (intro conjI allI impI) (auto split: if_splits)

lemma sortSliceOk_length: "sortSliceOk srt \<Longrightarrow> length (srt lt xs) = length xs"
  unfolding sortSliceOk_def by (metis size_mset)

lemma sortSliceOk_set: "sortSliceOk srt \<Longrightarrow> set (srt lt xs) = set xs"
  unfolding sortSliceOk_def by (metis set_mset_mset)

lemma sortSliceOk_Nil: "sortSliceOk srt \<Longrightarrow> srt lt [] = []"
  using sortSliceOk_length [of srt lt "[]"] by simp

lemma sortSliceOk_single: "sortSliceOk srt \<Longrightarrow> srt lt [x] = [x]"
proof -
  assume ok: "sortSliceOk srt"
  then have "mset (srt lt [x]) = {#x#}"
    unfolding sortSliceOk_def by simp
  then show ?thesis by (simp add: mset_single_iff_right)
qed

lemma sortSliceOk_sorted:
  "sortSliceOk srt \<Longrightarrow> strictWeakOrder lt \<Longrightarrow> sorted_wrt (\<lambda>a b. \<not> lt b a) (srt lt xs)"
  unfolding sortSliceOk_def by blast

lemma sortSliceOk_artists:
  assumes "sortSliceOk srt"
  shows "byPopularity (srt artistLess xs)"
proof -
  have "sorted_wrt (\<lambda>a b. \<not> artistLess b a) (srt artistLess xs)"
    using assms strictWeakOrder_artistLess by (rule sortSliceOk_sorted)
  then show ?thesis
    unfolding byPopularity_def
    by (rule sorted_wrt_mono_rel [rotated]) (simp add: artistLess_def)
qed

lemma eventLess_upcomingFirst:
  assumes "sorted_wrt (\<lambda>a b. \<not> eventLess now b a) es"
  shows "upcomingFirst now es"
  unfolding upcomingFirst_def using assms
  by (rule sorted_wrt_mono_rel [rotated])
    (auto simp: eventLess_def Let_def After_def Before_def split: if_splits)

lemma sortSliceOk_events:
  assumes "sortSliceOk srt"
  shows "upcomingFirst now (srt (eventLess now) xs)"
  using assms strictWeakOrder_eventLess by (intro eventLess_upcomingFirst sortSliceOk_sorted)

lemma truncateTo_length: "0 < limit \<Longrightarrow> int (length (truncateTo limit xs)) \<le> limit"
  by (simp add: truncateTo_def)

lemma truncateTo_Nil: "truncateTo limit [] = []"
  by (simp add: truncateTo_def)

lemma truncateTo_byPopularity: "byPopularity xs \<Longrightarrow> byPopularity (truncateTo limit xs)"
  by (simp add: truncateTo_def byPopularity_def sorted_wrt_take)

lemma truncateTo_upcomingFirst: "upcomingFirst now xs \<Longrightarrow> upcomingFirst now (truncateTo limit xs)"
  by (simp add: truncateTo_def upcomingFirst_def sorted_wrt_take)

lemma effectiveLimit_pos: "0 < effectiveLimit l"
  by (simp add: effectiveLimit_def)

lemma effectiveLimit_idem: "effectiveLimit (effectiveLimit l) = effectiveLimit l"
  by (simp add: effectiveLimit_def)

section \<open>The collecting loops\<close>

lemma find_snoc:
  "find P (xs @ [x]) = (case find P xs of Some y \<Rightarrow> Some y | None \<Rightarrow> if P x then Some x else None)"
  by (induction xs) auto

lemma collectArtists_eq:
  "collectArtists rs allArtists stats errs =
     (allArtists @ concat (map ResultArtists (filter succeeded rs)),
      (\<lambda>n. case lastCount (\<lambda>r. length (ResultArtists r)) rs n of Some k \<Rightarrow> Some k | None \<Rightarrow> stats n),
      errs @ map errorLine (filter (\<lambda>r. \<not> succeeded r) rs))"
proof (induction rs arbitrary: allArtists stats errs)
  case Nil
  show ?case by (simp add: lastCount_def)
next
  case (Cons r rs)
  show ?case
  proof (cases "Error r")
    case None
    then show ?thesis
      by (auto simp: Cons.IH succeeded_def lastCount_def find_snoc fun_eq_iff
          split: option.splits)
  next
    case (Some e)
    then show ?thesis
      by (simp add: Cons.IH succeeded_def lastCount_def errorLine_def formatError_def)
  qed
qed

lemma collectEvents_eq:
  "collectEvents rs allEvents stats errs =
     (allEvents @ concat (map ResultEvents (filter succeeded rs)),
      (\<lambda>n. case lastCount (\<lambda>r. length (ResultEvents r)) rs n of Some k \<Rightarrow> Some k | None \<Rightarrow> stats n),
      errs @ map errorLine (filter (\<lambda>r. \<not> succeeded r) rs))"
proof (induction rs arbitrary: allEvents stats errs)
  case Nil
  show ?case by (simp add: lastCount_def)
next
  case (Cons r rs)
  show ?case
  proof (cases "Error r")
    case None
    then show ?thesis
      by (auto simp: Cons.IH succeeded_def lastCount_def find_snoc fun_eq_iff
          split: option.splits)
  next
    case (Some e)
    then show ?thesis
      by (simp add: Cons.IH succeeded_def lastCount_def errorLine_def formatError_def)
  qed
qed

lemma aggregateArtists_fields:
  "Artists (aggregateArtists sa cfg clk lim rs) =
     processArtists sa cfg lim (concat (map ResultArtists (filter succeeded rs)))"
  "Events (aggregateArtists sa cfg clk lim rs) = []"
  "SourceStats (aggregateArtists sa cfg clk lim rs) = lastCount (\<lambda>r. length (ResultArtists r)) rs"
  "TotalResults (aggregateArtists sa cfg clk lim rs) =
     int (length (Artists (aggregateArtists sa cfg clk lim rs)))"
  "Errors (aggregateArtists sa cfg clk lim rs) = map errorLine (filter (\<lambda>r. \<not> succeeded r) rs)"
  by (auto simp: aggregateArtists_def collectArtists_eq fun_eq_iff split: option.splits)

lemma aggregateEvents_fields:
  "Events (aggregateEvents se cfg clk lim rs) =
     processEvents se cfg (tSort clk) lim (concat (map ResultEvents (filter succeeded rs)))"
  "Artists (aggregateEvents se cfg clk lim rs) = []"
  "SourceStats (aggregateEvents se cfg clk lim rs) = lastCount (\<lambda>r. length (ResultEvents r)) rs"
  "TotalResults (aggregateEvents se cfg clk lim rs) =
     int (length (Events (aggregateEvents se cfg clk lim rs)))"
  "Errors (aggregateEvents se cfg clk lim rs) = map errorLine (filter (\<lambda>r. \<not> succeeded r) rs)"
  by (auto simp: aggregateEvents_def collectEvents_eq fun_eq_iff split: option.splits)

lemma find_rev_filter_None:
  "find (\<lambda>r. SourceName r = n) (rev (filter succeeded rs)) = None \<longleftrightarrow>
     n \<notin> SourceName ` {r \<in> set rs. succeeded r}"
  by (auto simp: find_None_iff)

lemma lastCount_dom: "dom (lastCount cnt rs) = SourceName ` {r \<in> set rs. succeeded r}"
  by (auto simp: lastCount_def dom_def find_rev_filter_None)

lemma find_unique_name:
  assumes "distinct (map SourceName xs)" and "r \<in> set xs"
  shows "find (\<lambda>x. SourceName x = SourceName r) xs = Some r"
  using assms
proof (induction xs)
  case Nil
  then show ?case by simp
next
  case (Cons x xs)
  then show ?case by (cases "x = r") (auto simp: image_iff)
qed

lemma lastCount_distinct:
  assumes d: "distinct (map SourceName rs)" and r: "r \<in> set rs" and ok: "succeeded r"
  shows "lastCount cnt rs (SourceName r) = Some (int (cnt r))"
proof -
  have "distinct (map SourceName (filter succeeded rs))"
    using d by (rule distinct_map_filter)
  then have "distinct (map SourceName (rev (filter succeeded rs)))"
    by (simp add: rev_map [symmetric])
  moreover have "r \<in> set (rev (filter succeeded rs))"
    using r ok by simp
  ultimately have "find (\<lambda>x. SourceName x = SourceName r) (rev (filter succeeded rs)) = Some r"
    by (rule find_unique_name)
  then show ?thesis by (simp add: lastCount_def)
qed

text \<open>
  Claim C5. In the result that a search computes from the sequence \<open>rs\<close> of results it
  receives: the errors list has the line \<open>"<source>: <cause>"\<close> of every result with an
  error, in the order of arrival, and nothing else; the merged list is made from the
  items of the results without error alone, in the order of arrival, before
  deduplication, sorting and truncation; \<open>sourceStats\<close> has an entry exactly for the
  names of the results without error, and the entry of a name is the number of items of
  the last such result received under it, whatever the configuration and the limit. So
  the entry of each result without error is the number of items it brought when the
  names of the results are pairwise different, as they are in \<open>SearchArtists\<close>, where
  they are the keys of the registry of music sources. A search that finds nothing in the
  cache returns this result.
\<close>

theorem drain_splits_errors_and_items:
  "Errors (aggregateArtists sa cfg clk lim rs) =
     map (\<lambda>r. SourceName r @ '': '' @ the (Error r)) (filter (\<lambda>r. Error r \<noteq> None) rs) \<and>
   Artists (aggregateArtists sa cfg clk lim rs) =
     processArtists sa cfg lim (concat (map ResultArtists (filter (\<lambda>r. Error r = None) rs))) \<and>
   dom (SourceStats (aggregateArtists sa cfg clk lim rs)) =
     SourceName ` {r \<in> set rs. Error r = None} \<and>
   SourceStats (aggregateArtists sa cfg clk lim rs) =
     lastCount (\<lambda>r. length (ResultArtists r)) rs \<and>
   (artistArrivalsOk m rs \<longrightarrow>
      (\<forall>r \<in> set rs. Error r = None \<longrightarrow>
         SourceStats (aggregateArtists sa cfg clk lim rs) (SourceName r) =
           Some (int (length (ResultArtists r))))) \<and>
   Errors (aggregateEvents se cfg clk lim rs) =
     map (\<lambda>r. SourceName r @ '': '' @ the (Error r)) (filter (\<lambda>r. Error r \<noteq> None) rs) \<and>
   Events (aggregateEvents se cfg clk lim rs) =
     processEvents se cfg (tSort clk) lim
       (concat (map ResultEvents (filter (\<lambda>r. Error r = None) rs))) \<and>
   dom (SourceStats (aggregateEvents se cfg clk lim rs)) =
     SourceName ` {r \<in> set rs. Error r = None} \<and>
   SourceStats (aggregateEvents se cfg clk lim rs) =
     lastCount (\<lambda>r. length (ResultEvents r)) rs \<and>
   (distinct (map SourceName rs) \<longrightarrow>
      (\<forall>r \<in> set rs. Error r = None \<longrightarrow>
         SourceStats (aggregateEvents se cfg clk lim rs) (SourceName r) =
           Some (int (length (ResultEvents r))))) \<and>
   (cachedArtists m (tGet clk) q (effectiveLimit l) = None \<longrightarrow>
      (\<forall>r. returned (fst (SearchArtists sa m clk q l rs)) = Some r \<longrightarrow>
         r = aggregateArtists sa (config m) clk (effectiveLimit l) rs)) \<and>
   (cachedEvents m (tGet clk) a '''' (effectiveLimit l) = None \<longrightarrow>
      (\<forall>r. returned (fst (SearchEvents se m clk a l rs)) = Some r \<longrightarrow>
         r = aggregateEvents se (config m) clk (effectiveLimit l) rs)) \<and>
   (cachedEvents m (tGet clk) '''' ci (effectiveLimit l) = None \<longrightarrow>
      (\<forall>r. returned (fst (SearchEventsByLocation se m clk ci co l rs)) = Some r \<longrightarrow>
         r = aggregateEvents se (config m) clk (effectiveLimit l) rs))"
proof -
  have ok: "succeeded = (\<lambda>r. Error r = None)" "(\<lambda>r. \<not> succeeded r) = (\<lambda>r. Error r \<noteq> None)"
    by (simp_all add: succeeded_def fun_eq_iff)
  have line: "errorLine = (\<lambda>r. SourceName r @ '': '' @ the (Error r))"
    by (simp add: errorLine_def fun_eq_iff)
  have d: "dom (lastCount cnt rs) = SourceName ` {r \<in> set rs. Error r = None}" for cnt
    using lastCount_dom [of cnt rs] by (simp add: succeeded_def)
  have c: "distinct (map SourceName rs) \<longrightarrow>
      (\<forall>r \<in> set rs. Error r = None \<longrightarrow> lastCount cnt rs (SourceName r) = Some (int (cnt r)))"
    for cnt
    using lastCount_distinct [of rs _ cnt] by (simp add: succeeded_def)
  have c': "artistArrivalsOk m rs \<longrightarrow>
      (\<forall>r \<in> set rs. Error r = None \<longrightarrow> lastCount cnt rs (SourceName r) = Some (int (cnt r)))"
    for cnt
    using c [of cnt] by (simp add: artistArrivalsOk_def)
  have sa: "cachedArtists m (tGet clk) q (effectiveLimit l) = None \<longrightarrow>
      (\<forall>r. returned (fst (SearchArtists sa m clk q l rs)) = Some r \<longrightarrow>
         r = aggregateArtists sa (config m) clk (effectiveLimit l) rs)"
    using SearchArtists_miss_returned(1) by blast
  have se: "cachedEvents m (tGet clk) a ci (effectiveLimit l) = None \<longrightarrow>
      (\<forall>r. returned (fst (searchEventsKeyed se m clk a ci l rs)) = Some r \<longrightarrow>
         r = aggregateEvents se (config m) clk (effectiveLimit l) rs)" for a ci
    using searchEventsKeyed_miss_returned(1) by blast
  show ?thesis
    using d c c' sa se [of a "''''"] se [of "''''" ci]
    by (simp add: aggregateArtists_fields aggregateEvents_fields ok line SearchEvents_def
        SearchEventsByLocation_def)
qed

theorem drain_splits_errors_and_items_witness:
  "Errors (aggregateArtists insertionSort (exConfig False True) (exClock 0) 1
     [exArtists ''spotify'' [exArtist ''Radiohead'' 90, exArtist ''Muse'' 80],
      exFailure ''lastfm'' ''timeout'',
      exArtists ''deezer'' [exArtist ''Blur'' 70]]) = [''lastfm: timeout''] \<and>
   SourceStats (aggregateArtists insertionSort (exConfig False True) (exClock 0) 1
     [exArtists ''spotify'' [exArtist ''Radiohead'' 90, exArtist ''Muse'' 80],
      exFailure ''lastfm'' ''timeout'',
      exArtists ''deezer'' [exArtist ''Blur'' 70]]) ''spotify'' = Some 2 \<and>
   SourceStats (aggregateArtists insertionSort (exConfig False True) (exClock 0) 1
     [exArtists ''spotify'' [exArtist ''Radiohead'' 90, exArtist ''Muse'' 80],
      exFailure ''lastfm'' ''timeout'',
      exArtists ''deezer'' [exArtist ''Blur'' 70]]) ''deezer'' = Some 1 \<and>
   dom (SourceStats (aggregateArtists insertionSort (exConfig False True) (exClock 0) 1
     [exArtists ''spotify'' [exArtist ''Radiohead'' 90, exArtist ''Muse'' 80],
      exFailure ''lastfm'' ''timeout'',
      exArtists ''deezer'' [exArtist ''Blur'' 70]])) = {''spotify'', ''deezer''}"
proof -
  let ?rs = "[exArtists ''spotify'' [exArtist ''Radiohead'' 90, exArtist ''Muse'' 80],
      exFailure ''lastfm'' ''timeout'',
      exArtists ''deezer'' [exArtist ''Blur'' 70]]"
  let ?m = "RegisterMusicSource (RegisterMusicSource (RegisterMusicSource
         (NewMegaAggregator (exConfig False True)) ''spotify'') ''lastfm'') ''deezer''"
  let ?agg = "aggregateArtists insertionSort (exConfig False True) (exClock 0) 1 ?rs"
  note t = drain_splits_errors_and_items [where rs = ?rs and sa = insertionSort
      and cfg = "exConfig False True" and clk = "exClock 0" and lim = 1 and m = ?m]
  have ok: "artistArrivalsOk ?m ?rs"
    by (auto simp: artistArrivalsOk_def exArtists_def exFailure_def RegisterMusicSource_def
        NewMegaAggregator_def)
  have s: "{r \<in> set ?rs. Error r = None} =
      {exArtists ''spotify'' [exArtist ''Radiohead'' 90, exArtist ''Muse'' 80],
       exArtists ''deezer'' [exArtist ''Blur'' 70]}"
    by (auto simp: exArtists_def exFailure_def)
  have "Errors ?agg =
      map (\<lambda>r. SourceName r @ '': '' @ the (Error r)) (filter (\<lambda>r. Error r \<noteq> None) ?rs)"
    by (rule t [THEN conjunct1])
  then have e: "Errors ?agg = [''lastfm: timeout'']"
    by (simp add: exArtists_def exFailure_def)
  have "dom (SourceStats ?agg) = SourceName ` {r \<in> set ?rs. Error r = None}"
    by (rule t [THEN conjunct2, THEN conjunct2, THEN conjunct1])
  then have d: "dom (SourceStats ?agg) = {''spotify'', ''deezer''}"
    unfolding s by (simp add: exArtists_def)
  have c: "\<forall>r \<in> set ?rs. Error r = None \<longrightarrow>
      SourceStats ?agg (SourceName r) = Some (int (length (ResultArtists r)))"
    using ok
    by (rule t [THEN conjunct2, THEN conjunct2, THEN conjunct2, THEN conjunct2, THEN conjunct1,
          THEN mp])
  from c have c1: "SourceStats ?agg ''spotify'' = Some 2"
    by (simp add: exArtists_def exFailure_def)
  from c have c2: "SourceStats ?agg ''deezer'' = Some 1"
    by (simp add: exArtists_def exFailure_def)
  from e c1 c2 d show ?thesis
    by (simp only: simp_thms)
qed

section \<open>What holds of every cached entry\<close>

lemma SearchArtists_cases:
  obtains (hit) r where "cachedArtists m (tGet clk) q (effectiveLimit l) = Some r"
      "SearchArtists sa m clk q l arr = (Return r None, m)"
  | (stuck) out where "cachedArtists m (tGet clk) q (effectiveLimit l) = None"
      "returned out = None" "SearchArtists sa m clk q l arr = (out, m)"
  | (miss_nocache) "cachedArtists m (tGet clk) q (effectiveLimit l) = None" "cache m = None"
      "SearchArtists sa m clk q l arr =
         (Return (aggregateArtists sa (config m) clk (effectiveLimit l) arr) None, m)"
  | (miss) c where "cachedArtists m (tGet clk) q (effectiveLimit l) = None" "cache m = Some c"
      "SearchArtists sa m clk q l arr =
         (Return (aggregateArtists sa (config m) clk (effectiveLimit l) arr) None,
          m\<lparr>cache := Some (SetArtists c (tSet clk) q (effectiveLimit l)
             (aggregateArtists sa (config m) clk (effectiveLimit l) arr))\<rparr>)"
proof (cases "cachedArtists m (tGet clk) q (effectiveLimit l)")
  case (Some r)
  then show ?thesis
    using hit SearchArtists_hit by blast
next
  case None
  note none = this
  show ?thesis
  proof (cases "MaxConcurrentRequests (config m) < 0 \<or>
      (MaxConcurrentRequests (config m) = 0 \<and> musicSources m \<noteq> {})")
    case True
    then have "\<exists>out. returned out = None \<and> SearchArtists sa m clk q l arr = (out, m)"
      using none by (auto simp: SearchArtists_def)
    then show ?thesis
      using stuck [OF none] by blast
  next
    case False
    then have run: "SearchArtists sa m clk q l arr =
        (Return (aggregateArtists sa (config m) clk (effectiveLimit l) arr) None,
         m\<lparr>cache := map_option
           (\<lambda>c. SetArtists c (tSet clk) q (effectiveLimit l)
                  (aggregateArtists sa (config m) clk (effectiveLimit l) arr))
           (cache m)\<rparr>)"
      using none by (auto simp: SearchArtists_def)
    show ?thesis
    proof (cases "cache m")
      case None
      then have "m\<lparr>cache := None\<rparr> = m"
        by simp
      with run None show ?thesis
        using miss_nocache [OF none None] by simp
    next
      case (Some c)
      with run show ?thesis
        using miss [OF none Some] by simp
    qed
  qed
qed

lemma searchEventsKeyed_cases:
  obtains (hit) r where "cachedEvents m (tGet clk) a ci (effectiveLimit l) = Some r"
      "searchEventsKeyed se m clk a ci l arr = (Return r None, m)"
  | (stuck) out where "cachedEvents m (tGet clk) a ci (effectiveLimit l) = None"
      "returned out = None" "searchEventsKeyed se m clk a ci l arr = (out, m)"
  | (miss_nocache) "cachedEvents m (tGet clk) a ci (effectiveLimit l) = None" "cache m = None"
      "searchEventsKeyed se m clk a ci l arr =
         (Return (aggregateEvents se (config m) clk (effectiveLimit l) arr) None, m)"
  | (miss) c where "cachedEvents m (tGet clk) a ci (effectiveLimit l) = None" "cache m = Some c"
      "searchEventsKeyed se m clk a ci l arr =
         (Return (aggregateEvents se (config m) clk (effectiveLimit l) arr) None,
          m\<lparr>cache := Some (SetEvents c (tSet clk) a ci (effectiveLimit l)
             (aggregateEvents se (config m) clk (effectiveLimit l) arr))\<rparr>)"
proof (cases "cachedEvents m (tGet clk) a ci (effectiveLimit l)")
  case (Some r)
  then show ?thesis
    using hit searchEventsKeyed_hit by blast
next
  case None
  note none = this
  show ?thesis
  proof (cases "MaxConcurrentRequests (config m) < 0 \<or>
      (MaxConcurrentRequests (config m) = 0 \<and> \<not> noEventSources m)")
    case True
    then have "\<exists>out. returned out = None \<and> searchEventsKeyed se m clk a ci l arr = (out, m)"
      using none by (auto simp: searchEventsKeyed_def)
    then show ?thesis
      using stuck [OF none] by blast
  next
    case False
    then have run: "searchEventsKeyed se m clk a ci l arr =
        (Return (aggregateEvents se (config m) clk (effectiveLimit l) arr) None,
         m\<lparr>cache := map_option
           (\<lambda>c. SetEvents c (tSet clk) a ci (effectiveLimit l)
                  (aggregateEvents se (config m) clk (effectiveLimit l) arr))
           (cache m)\<rparr>)"
      using none by (auto simp: searchEventsKeyed_def)
    show ?thesis
    proof (cases "cache m")
      case None
      then have "m\<lparr>cache := None\<rparr> = m"
        by simp
      with run None show ?thesis
        using miss_nocache [OF none None] by simp
    next
      case (Some c)
      with run show ?thesis
        using miss [OF none Some] by simp
    qed
  qed
qed

lemma cacheAll_SetArtists:
  assumes inv: "cacheAll PA PE m" and c: "cache m = Some c"
    and ca: "\<And>x. PA (m\<lparr>cache := x\<rparr>) = PA m" and ce: "\<And>x. PE (m\<lparr>cache := x\<rparr>) = PE m"
    and new: "PA m (artistCacheKey q l) r"
  shows "cacheAll PA PE (m\<lparr>cache := Some (SetArtists c t q l r)\<rparr>)"
  using inv c new unfolding cacheAll_def
  by (auto simp: ca ce SetArtists_def)

lemma cacheAll_SetEvents:
  assumes inv: "cacheAll PA PE m" and c: "cache m = Some c"
    and ca: "\<And>x. PA (m\<lparr>cache := x\<rparr>) = PA m" and ce: "\<And>x. PE (m\<lparr>cache := x\<rparr>) = PE m"
    and new: "PE m (eventCacheKey a ci l) r"
  shows "cacheAll PA PE (m\<lparr>cache := Some (SetEvents c t a ci l r)\<rparr>)"
  using inv c new unfolding cacheAll_def
  by (auto simp: ca ce SetEvents_def)

lemma cacheAll_reachable:
  assumes reach: "reachable sa se m"
    and ca: "\<And>m x. PA (m\<lparr>cache := x\<rparr>) = PA m" and ce: "\<And>m x. PE (m\<lparr>cache := x\<rparr>) = PE m"
    and regA: "\<And>m n k r. PA m k r \<Longrightarrow>
        PA (RegisterMusicSource m n) k r \<and> PA (RegisterEventSource m n) k r \<and>
        PA (RegisterScraper m n) k r"
    and regE: "\<And>m n k r. PE m k r \<Longrightarrow>
        PE (RegisterMusicSource m n) k r \<and> PE (RegisterEventSource m n) k r \<and>
        PE (RegisterScraper m n) k r"
    and newA: "\<And>m clk q l arr. artistArrivalsOk m arr \<Longrightarrow>
        PA m (artistCacheKey q (effectiveLimit l))
          (aggregateArtists sa (config m) clk (effectiveLimit l) arr)"
    and newE: "\<And>m clk a ci l arr. eventArrivalsOk m arr \<Longrightarrow>
        PE m (eventCacheKey a ci (effectiveLimit l))
          (aggregateEvents se (config m) clk (effectiveLimit l) arr)"
  shows "cacheAll PA PE m"
  using reach
proof (induction rule: reachable.induct)
  case (reach_new c)
  show ?case
    by (simp add: cacheAll_def NewMegaAggregator_def NewAggregatorCache_def)
next
  case (reach_music m name)
  then show ?case
    using regA regE unfolding cacheAll_def by (simp add: RegisterMusicSource_def)
next
  case (reach_event m name)
  then show ?case
    using regA regE unfolding cacheAll_def by (simp add: RegisterEventSource_def)
next
  case (reach_scraper m name)
  then show ?case
    using regA regE unfolding cacheAll_def by (simp add: RegisterScraper_def)
next
  case (reach_artists m arrivals clk query limit)
  show ?case
  proof (cases rule: SearchArtists_cases [of m clk query limit sa arrivals])
    case (miss c)
    have "cacheAll PA PE (m\<lparr>cache := Some (SetArtists c (tSet clk) query (effectiveLimit limit)
        (aggregateArtists sa (config m) clk (effectiveLimit limit) arrivals))\<rparr>)"
      using reach_artists.IH miss(2) ca ce newA [OF reach_artists.hyps(2)]
      by (rule cacheAll_SetArtists)
    with miss show ?thesis by simp
  qed (simp_all add: reach_artists.IH)
next
  case (reach_events m arrivals clk artistName limit)
  show ?case
  proof (cases rule: searchEventsKeyed_cases [of m clk artistName "''''" limit se arrivals])
    case (miss c)
    have "cacheAll PA PE (m\<lparr>cache := Some (SetEvents c (tSet clk) artistName '''' (effectiveLimit limit)
        (aggregateEvents se (config m) clk (effectiveLimit limit) arrivals))\<rparr>)"
      using reach_events.IH miss(2) ca ce newE [OF reach_events.hyps(2)]
      by (rule cacheAll_SetEvents)
    with miss show ?thesis by (simp add: SearchEvents_def)
  qed (simp_all add: reach_events.IH SearchEvents_def)
next
  case (reach_location m arrivals clk city country limit)
  show ?case
  proof (cases rule: searchEventsKeyed_cases [of m clk "''''" city limit se arrivals])
    case (miss c)
    have "cacheAll PA PE (m\<lparr>cache := Some (SetEvents c (tSet clk) '''' city (effectiveLimit limit)
        (aggregateEvents se (config m) clk (effectiveLimit limit) arrivals))\<rparr>)"
      using reach_location.IH miss(2) ca ce newE [OF reach_location.hyps(2)]
      by (rule cacheAll_SetEvents)
    with miss show ?thesis by (simp add: SearchEventsByLocation_def)
  qed (simp_all add: reach_location.IH SearchEventsByLocation_def)
qed

lemma cacheAll_artist_hit:
  "cacheAll PA PE m \<Longrightarrow> cachedArtists m t q l = Some r \<Longrightarrow> PA m (artistCacheKey q l) r"
  unfolding cacheAll_def cachedArtists_def GetArtists_def
  by (auto split: option.splits if_splits)

lemma cacheAll_event_hit:
  "cacheAll PA PE m \<Longrightarrow> cachedEvents m t a ci l = Some r \<Longrightarrow> PE m (eventCacheKey a ci l) r"
  unfolding cacheAll_def cachedEvents_def GetEvents_def
  by (auto split: option.splits if_splits)

section \<open>A running example\<close>

lemma exAggregator_fields:
  "musicSources (exAggregator c d) = {''A'', ''B''}"
  "eventSources (exAggregator c d) = {''E''}"
  "scraperRegistry (exAggregator c d) = {}"
  "cache (exAggregator c d) = (if c then Some (NewAggregatorCache Hour) else None)"
  "MaxConcurrentRequests (config (exAggregator c d)) = 10"
  "DeduplicationEnabled (config (exAggregator c d)) = d"
  "IncludeScrapers (config (exAggregator c d)) = False"
  by (auto simp: exAggregator_def RegisterMusicSource_def RegisterEventSource_def
      NewMegaAggregator_def withDefaults_def exConfig_def)

lemma exAggregator_reachable: "reachable sa se (exAggregator c d)"
  unfolding exAggregator_def by (intro reachable.intros)

lemma exAggregator_miss:
  "cachedArtists (exAggregator c d) t q l = None"
  "cachedEvents (exAggregator c d) t a ci l = None"
  by (simp_all add: cachedArtists_def cachedEvents_def exAggregator_fields GetArtists_def
      GetEvents_def NewAggregatorCache_def)

lemmas eval_artists =
  aggregateArtists_fields succeeded_def processArtists_def DeduplicateArtists_def seenGet_def
  eval_names insertionSort_def artistLess_def truncateTo_def exArtist_def exArtists_def
  exFailure_def

lemmas eval_events =
  aggregateEvents_fields succeeded_def processEvents_def insertionSort_def eventLess_def
  After_def Before_def truncateTo_def exEvent_def exEvents_def exFailure_def exVenue_def
  exClock_def exTime_def

section \<open>Counts and limits of the results\<close>

lemma processArtists_length: "0 < lim \<Longrightarrow> int (length (processArtists sa cfg lim xs)) \<le> lim"
  unfolding processArtists_def by (rule truncateTo_length)

lemma processEvents_length: "0 < lim \<Longrightarrow> int (length (processEvents se cfg now lim xs)) \<le> lim"
  unfolding processEvents_def by (rule truncateTo_length)

lemma aggregateArtists_entryOk:
  assumes "0 < lim"
  shows "artistEntryOk (artistCacheKey q lim) (aggregateArtists sa cfg clk lim arr)"
  unfolding artistEntryOk_def
proof (intro conjI allI impI)
  show "TotalResults (aggregateArtists sa cfg clk lim arr) =
      int (length (Artists (aggregateArtists sa cfg clk lim arr)))"
    by (rule aggregateArtists_fields)
next
  fix q' l'
  assume "artistCacheKey q lim = artistCacheKey q' l'"
  then have "lim = l'" by (rule artistCacheKey_limit)
  then show "int (length (Artists (aggregateArtists sa cfg clk lim arr))) \<le> l'"
    using assms processArtists_length [of lim sa cfg] by (simp add: aggregateArtists_fields)
qed

lemma aggregateEvents_entryOk:
  assumes "0 < lim"
  shows "eventEntryOk (eventCacheKey a ci lim) (aggregateEvents se cfg clk lim arr)"
  unfolding eventEntryOk_def
proof (intro conjI allI impI)
  show "TotalResults (aggregateEvents se cfg clk lim arr) =
      int (length (Events (aggregateEvents se cfg clk lim arr)))"
    by (rule aggregateEvents_fields)
next
  fix a' ci' l'
  assume "eventCacheKey a ci lim = eventCacheKey a' ci' l'"
  then have "lim = l'" by (rule eventCacheKey_limit)
  then show "int (length (Events (aggregateEvents se cfg clk lim arr))) \<le> l'"
    using assms processEvents_length [of lim se cfg] by (simp add: aggregateEvents_fields)
qed

lemma cache_counts:
  assumes "reachable sa se m"
  shows "cacheAll (\<lambda>m. artistEntryOk) (\<lambda>m. eventEntryOk) m"
  using assms
  by (rule cacheAll_reachable)
    (simp_all add: aggregateArtists_entryOk aggregateEvents_entryOk effectiveLimit_pos)

lemma SearchArtists_counts:
  assumes reach: "reachable sa se m"
    and ret: "returned (fst (SearchArtists sa m clk q l arr)) = Some r"
  shows "TotalResults r = int (length (Artists r)) \<and> int (length (Artists r)) \<le> effectiveLimit l"
proof -
  have ok: "artistEntryOk (artistCacheKey q (effectiveLimit l)) r"
  proof (cases rule: SearchArtists_cases [of m clk q l sa arr])
    case (hit r')
    with ret have "r' = r" by simp
    with hit cacheAll_artist_hit [OF cache_counts [OF reach]] show ?thesis by blast
  next
    case (stuck out)
    with ret show ?thesis by simp
  next
    case miss_nocache
    with ret show ?thesis
      using aggregateArtists_entryOk [OF effectiveLimit_pos] by auto
  next
    case (miss c)
    with ret show ?thesis
      using aggregateArtists_entryOk [OF effectiveLimit_pos] by auto
  qed
  then show ?thesis
    unfolding artistEntryOk_def using effectiveLimit_pos [of l] by blast
qed

lemma searchEventsKeyed_counts:
  assumes reach: "reachable sa se m"
    and ret: "returned (fst (searchEventsKeyed se m clk a ci l arr)) = Some r"
  shows "TotalResults r = int (length (Events r)) \<and> int (length (Events r)) \<le> effectiveLimit l"
proof -
  have ok: "eventEntryOk (eventCacheKey a ci (effectiveLimit l)) r"
  proof (cases rule: searchEventsKeyed_cases [of m clk a ci l se arr])
    case (hit r')
    with ret have "r' = r" by simp
    with hit cacheAll_event_hit [OF cache_counts [OF reach]] show ?thesis by blast
  next
    case (stuck out)
    with ret show ?thesis by simp
  next
    case miss_nocache
    with ret show ?thesis
      using aggregateEvents_entryOk [OF effectiveLimit_pos] by auto
  next
    case (miss c)
    with ret show ?thesis
      using aggregateEvents_entryOk [OF effectiveLimit_pos] by auto
  qed
  then show ?thesis
    unfolding eventEntryOk_def using effectiveLimit_pos [of l] by blast
qed

lemma effectiveLimit_nonpos: "l \<le> 0 \<Longrightarrow> effectiveLimit l = effectiveLimit 50"
  by (simp add: effectiveLimit_def)

text \<open>
  Claim C6. On an aggregator built by \<open>NewMegaAggregator\<close> and used through its
  operations, every result that one of the three searches returns, computed or taken
  from the cache, has \<open>TotalResults\<close> equal to the length of the list it carries, and
  that length is at most the effective limit. A limit that is not positive is the limit
  50 in every respect: the search is the same function of its other arguments, in what
  it returns and in the state it leaves.
\<close>

theorem total_results_is_length_within_limit:
  "reachable sa se m \<Longrightarrow>
   (\<forall>r. returned (fst (SearchArtists sa m clk q l arr)) = Some r \<longrightarrow>
        TotalResults r = int (length (Artists r)) \<and>
        int (length (Artists r)) \<le> effectiveLimit l) \<and>
   (\<forall>r. returned (fst (SearchEvents se m clk a l arr)) = Some r \<longrightarrow>
        TotalResults r = int (length (Events r)) \<and>
        int (length (Events r)) \<le> effectiveLimit l) \<and>
   (\<forall>r. returned (fst (SearchEventsByLocation se m clk ci co l arr)) = Some r \<longrightarrow>
        TotalResults r = int (length (Events r)) \<and>
        int (length (Events r)) \<le> effectiveLimit l) \<and>
   (l \<le> 0 \<longrightarrow>
      effectiveLimit l = 50 \<and>
      SearchArtists sa m clk q l arr = SearchArtists sa m clk q 50 arr \<and>
      SearchEvents se m clk a l arr = SearchEvents se m clk a 50 arr \<and>
      SearchEventsByLocation se m clk ci co l arr =
        SearchEventsByLocation se m clk ci co 50 arr) \<and>
   (0 < l \<longrightarrow> effectiveLimit l = l)"
proof (intro conjI allI impI)
  assume reach: "reachable sa se m"
  {
    fix r
    assume "returned (fst (SearchArtists sa m clk q l arr)) = Some r"
    with reach have c: "TotalResults r = int (length (Artists r)) \<and>
        int (length (Artists r)) \<le> effectiveLimit l"
      by (rule SearchArtists_counts)
    from c show "TotalResults r = int (length (Artists r))" ..
    from c show "int (length (Artists r)) \<le> effectiveLimit l" ..
  }
  {
    fix r
    assume "returned (fst (SearchEvents se m clk a l arr)) = Some r"
    with reach have c: "TotalResults r = int (length (Events r)) \<and>
        int (length (Events r)) \<le> effectiveLimit l"
      unfolding SearchEvents_def by (rule searchEventsKeyed_counts)
    from c show "TotalResults r = int (length (Events r))" ..
    from c show "int (length (Events r)) \<le> effectiveLimit l" ..
  }
  {
    fix r
    assume "returned (fst (SearchEventsByLocation se m clk ci co l arr)) = Some r"
    with reach have c: "TotalResults r = int (length (Events r)) \<and>
        int (length (Events r)) \<le> effectiveLimit l"
      unfolding SearchEventsByLocation_def by (rule searchEventsKeyed_counts)
    from c show "TotalResults r = int (length (Events r))" ..
    from c show "int (length (Events r)) \<le> effectiveLimit l" ..
  }
  {
    assume l: "l \<le> 0"
    then show "effectiveLimit l = 50"
      by (simp add: effectiveLimit_def)
    from l have e: "effectiveLimit l = effectiveLimit 50"
      by (rule effectiveLimit_nonpos)
    show "SearchArtists sa m clk q l arr = SearchArtists sa m clk q 50 arr"
      unfolding SearchArtists_def e by (rule refl)
    show "SearchEvents se m clk a l arr = SearchEvents se m clk a 50 arr"
      unfolding SearchEvents_def searchEventsKeyed_def e by (rule refl)
    show "SearchEventsByLocation se m clk ci co l arr =
        SearchEventsByLocation se m clk ci co 50 arr"
      unfolding SearchEventsByLocation_def searchEventsKeyed_def e by (rule refl)
  }
  {
    assume "0 < l"
    then show "effectiveLimit l = l"
      by (simp add: effectiveLimit_def)
  }
qed

theorem total_results_is_length_within_limit_witness:
  "returned (fst (SearchArtists insertionSort (exAggregator False True) (exClock 10) ''q'' 2
      [exArtists ''A'' [exArtist ''Muse'' 80, exArtist ''Radiohead'' 90],
       exArtists ''B'' [exArtist ''Blur'' 70]])) =
     Some (aggregateArtists insertionSort (config (exAggregator False True)) (exClock 10) 2
      [exArtists ''A'' [exArtist ''Muse'' 80, exArtist ''Radiohead'' 90],
       exArtists ''B'' [exArtist ''Blur'' 70]]) \<and>
   Artists (aggregateArtists insertionSort (config (exAggregator False True)) (exClock 10) 2
      [exArtists ''A'' [exArtist ''Muse'' 80, exArtist ''Radiohead'' 90],
       exArtists ''B'' [exArtist ''Blur'' 70]]) =
     [exArtist ''Radiohead'' 90, exArtist ''Muse'' 80] \<and>
   TotalResults (aggregateArtists insertionSort (config (exAggregator False True)) (exClock 10) 2
      [exArtists ''A'' [exArtist ''Muse'' 80, exArtist ''Radiohead'' 90],
       exArtists ''B'' [exArtist ''Blur'' 70]]) = 2 \<and>
   SearchArtists insertionSort (exAggregator False True) (exClock 10) ''q'' (- 3) [] =
     SearchArtists insertionSort (exAggregator False True) (exClock 10) ''q'' 50 []"
proof -
  let ?arr = "[exArtists ''A'' [exArtist ''Muse'' 80, exArtist ''Radiohead'' 90],
       exArtists ''B'' [exArtist ''Blur'' 70]]"
  let ?ra = "aggregateArtists insertionSort (config (exAggregator False True)) (exClock 10) 2 ?arr"
  have fa: "fst (SearchArtists insertionSort (exAggregator False True) (exClock 10) ''q'' 2 ?arr) =
      Return ?ra None"
    by (simp add: SearchArtists_def exAggregator_miss exAggregator_fields effectiveLimit_def)
  have va: "Artists ?ra = [exArtist ''Radiohead'' 90, exArtist ''Muse'' 80]"
    by (simp add: eval_artists exAggregator_fields)
  from total_results_is_length_within_limit
      [OF exAggregator_reachable [of insertionSort insertionSort False True],
      where clk = "exClock 10"
      and q = "''q''" and l = 2 and arr = ?arr] fa va
  have "TotalResults ?ra = 2"
    by simp
  moreover
  from total_results_is_length_within_limit
      [OF exAggregator_reachable [of insertionSort insertionSort False True],
      where clk = "exClock 10"
      and q = "''q''" and l = "- 3" and arr = "[]"]
  have "SearchArtists insertionSort (exAggregator False True) (exClock 10) ''q'' (- 3) [] =
     SearchArtists insertionSort (exAggregator False True) (exClock 10) ''q'' 50 []"
    by simp
  ultimately show ?thesis
    using fa va by simp
qed

section \<open>Order of the results\<close>

lemma processArtists_ordered: "sortSliceOk sa \<Longrightarrow> byPopularity (processArtists sa cfg lim xs)"
  unfolding processArtists_def by (intro truncateTo_byPopularity sortSliceOk_artists)

lemma processEvents_ordered:
  "sortSliceOk se \<Longrightarrow> upcomingFirst now (processEvents se cfg now lim xs)"
  unfolding processEvents_def by (intro truncateTo_upcomingFirst sortSliceOk_events)

lemma cache_ordered:
  assumes "reachable sa se m" and sa: "sortSliceOk sa" and se: "sortSliceOk se"
  shows "cacheAll (\<lambda>m k r. byPopularity (Artists r)) (\<lambda>m k r. \<exists>now. upcomingFirst now (Events r)) m"
  using assms(1)
proof (rule cacheAll_reachable)
  fix m clk q l arr
  show "byPopularity (Artists (aggregateArtists sa (config m) clk (effectiveLimit l) arr))"
    using sa by (simp add: aggregateArtists_fields processArtists_ordered)
next
  fix m clk a ci l arr
  have "upcomingFirst (tSort clk) (Events (aggregateEvents se (config m) clk (effectiveLimit l) arr))"
    using se by (simp add: aggregateEvents_fields processEvents_ordered)
  then show "\<exists>now. upcomingFirst now
      (Events (aggregateEvents se (config m) clk (effectiveLimit l) arr))" ..
qed simp_all

lemma SearchArtists_ordered:
  assumes reach: "reachable sa se m" and sa: "sortSliceOk sa" and se: "sortSliceOk se"
    and ret: "returned (fst (SearchArtists sa m clk q l arr)) = Some r"
  shows "byPopularity (Artists r)"
proof (cases rule: SearchArtists_cases [of m clk q l sa arr])
  case (hit r')
  with ret have "r' = r" by simp
  with hit cacheAll_artist_hit [OF cache_ordered [OF reach sa se]] show ?thesis by blast
next
  case (stuck out)
  with ret show ?thesis by simp
next
  case miss_nocache
  with ret sa show ?thesis
    by (auto simp: aggregateArtists_fields processArtists_ordered)
next
  case (miss c)
  with ret sa show ?thesis
    by (auto simp: aggregateArtists_fields processArtists_ordered)
qed

text \<open>The two ways of telling the aggregators in use describe the same aggregators.\<close>

lemma reachableAt_reachable: "reachableAt sa se nows m \<Longrightarrow> reachable sa se m"
  by (induction rule: reachableAt.induct) (auto intro: reachable.intros)

lemma reachable_reachableAt: "reachable sa se m \<Longrightarrow> \<exists>nows. reachableAt sa se nows m"
  by (induction rule: reachable.induct) (blast intro: reachableAt.intros)+

text \<open>
  Every list of events in the cache is in the order \<open>upcomingFirst\<close> relative to one of
  the readings of the clock taken at the sorting step of an earlier event search.
\<close>

lemma cacheAll_events_mono:
  assumes "cacheAll PA PE m" and "\<And>k r. PE m k r \<Longrightarrow> PE' m k r"
  shows "cacheAll PA PE' m"
  using assms unfolding cacheAll_def by blast

lemma searchEventsKeyed_sorted_at:
  assumes inv: "cacheAll (\<lambda>m k r. True)
      (\<lambda>m k r. \<exists>now \<in> set nows. upcomingFirst now (Events r)) m"
    and se: "sortSliceOk se"
  shows "cacheAll (\<lambda>m k r. True)
      (\<lambda>m' k r. \<exists>now \<in> set (sortReadings m clk a ci l
           (fst (searchEventsKeyed se m clk a ci l arr)) nows). upcomingFirst now (Events r))
      (snd (searchEventsKeyed se m clk a ci l arr))"
proof -
  let ?nows = "sortReadings m clk a ci l (fst (searchEventsKeyed se m clk a ci l arr)) nows"
  let ?PE = "\<lambda>(m' :: MegaAggregator) (k :: string) r.
      \<exists>now \<in> set ?nows. upcomingFirst now (Events r)"
  have sub: "set nows \<subseteq> set ?nows"
    by (auto simp: sortReadings_def)
  have inv': "cacheAll (\<lambda>m k r. True) ?PE m"
    using inv
  proof (rule cacheAll_events_mono)
    fix k r
    assume "\<exists>now \<in> set nows. upcomingFirst now (Events r)"
    with sub show "\<exists>now \<in> set ?nows. upcomingFirst now (Events r)"
      by blast
  qed
  show ?thesis
  proof (cases rule: searchEventsKeyed_cases [of m clk a ci l se arr])
    case (hit r)
    with inv' show ?thesis by simp
  next
    case (stuck out)
    with inv' show ?thesis by simp
  next
    case miss_nocache
    with inv' show ?thesis by simp
  next
    case (miss c)
    have "upcomingFirst (tSort clk)
        (Events (aggregateEvents se (config m) clk (effectiveLimit l) arr))"
      using se by (simp add: aggregateEvents_fields processEvents_ordered)
    moreover have "tSort clk \<in> set ?nows"
      using miss by (simp add: sortReadings_def)
    ultimately have new: "?PE m (eventCacheKey a ci (effectiveLimit l))
        (aggregateEvents se (config m) clk (effectiveLimit l) arr)"
      by blast
    have "cacheAll (\<lambda>m k r. True) ?PE
        (m\<lparr>cache := Some (SetEvents c (tSet clk) a ci (effectiveLimit l)
           (aggregateEvents se (config m) clk (effectiveLimit l) arr))\<rparr>)"
      by (rule cacheAll_SetEvents [OF inv' miss(2) _ _ new]) simp_all
    with miss show ?thesis by simp
  qed
qed

lemma cache_sorted_at:
  assumes "reachableAt sa se nows m" and se: "sortSliceOk se"
  shows "cacheAll (\<lambda>m k r. True) (\<lambda>m k r. \<exists>now \<in> set nows. upcomingFirst now (Events r)) m"
  using assms(1)
proof (induction rule: reachableAt.induct)
  case (at_new c)
  show ?case
    by (simp add: cacheAll_def NewMegaAggregator_def NewAggregatorCache_def)
next
  case (at_music nows m name)
  then show ?case
    unfolding cacheAll_def by (simp add: RegisterMusicSource_def)
next
  case (at_event nows m name)
  then show ?case
    unfolding cacheAll_def by (simp add: RegisterEventSource_def)
next
  case (at_scraper nows m name)
  then show ?case
    unfolding cacheAll_def by (simp add: RegisterScraper_def)
next
  case (at_artists nows m arrivals clk query limit)
  show ?case
  proof (cases rule: SearchArtists_cases [of m clk query limit sa arrivals])
    case (miss c)
    have "cacheAll (\<lambda>m k r. True) (\<lambda>m k r. \<exists>now \<in> set nows. upcomingFirst now (Events r))
        (m\<lparr>cache := Some (SetArtists c (tSet clk) query (effectiveLimit limit)
           (aggregateArtists sa (config m) clk (effectiveLimit limit) arrivals))\<rparr>)"
      by (rule cacheAll_SetArtists [OF at_artists.IH miss(2)]) simp_all
    with miss show ?thesis by simp
  qed (simp_all add: at_artists.IH)
next
  case (at_events nows m arrivals clk artistName limit)
  from at_events.IH se show ?case
    unfolding SearchEvents_def by (rule searchEventsKeyed_sorted_at)
next
  case (at_location nows m arrivals clk city country limit)
  from at_location.IH se show ?case
    unfolding SearchEventsByLocation_def by (rule searchEventsKeyed_sorted_at)
qed

lemma searchEventsKeyed_ordered:
  assumes reach: "reachableAt sa se nows m" and se: "sortSliceOk se"
    and ret: "returned (fst (searchEventsKeyed se m clk a ci l arr)) = Some r"
  shows "if cachedEvents m (tGet clk) a ci (effectiveLimit l) = None
     then upcomingFirst (tSort clk) (Events r)
     else \<exists>now \<in> set nows. upcomingFirst now (Events r)"
proof (cases rule: searchEventsKeyed_cases [of m clk a ci l se arr])
  case (hit r')
  with ret have "r' = r" by simp
  with hit cacheAll_event_hit [OF cache_sorted_at [OF reach se]] show ?thesis by auto
next
  case (stuck out)
  with ret show ?thesis by simp
next
  case miss_nocache
  with ret se show ?thesis
    by (auto simp: aggregateEvents_fields processEvents_ordered)
next
  case (miss c)
  with ret se show ?thesis
    by (auto simp: aggregateEvents_fields processEvents_ordered)
qed

text \<open>
  Claim C4, as the code has it. With a sorting function that meets the contract of
  \<open>sort.Slice\<close>, on an aggregator built by \<open>NewMegaAggregator\<close> and used through its
  operations: the artists of every result that \<open>SearchArtists\<close> returns are in order of
  popularity, no artist having a smaller popularity than a later one. The events of a
  result that \<open>SearchEvents\<close> or \<open>SearchEventsByLocation\<close> returns are in the order
  \<open>upcomingFirst\<close> relative to the instant \<open>now\<close> at which the list was sorted: when the
  search finds nothing in the cache, \<open>now\<close> is the reading of the clock at its own
  sorting step; when the result comes from the cache, \<open>now\<close> is the reading taken at the
  sorting step of an earlier event search on this aggregator, one of those that did not
  find their answer in the cache, and not the time of the search that returns the
  result.
\<close>

theorem results_are_ordered:
  "sortSliceOk sa \<Longrightarrow> sortSliceOk se \<Longrightarrow> reachableAt sa se nows m \<Longrightarrow>
   (\<forall>r. returned (fst (SearchArtists sa m clk q l arr)) = Some r \<longrightarrow>
        sorted_wrt (\<lambda>x y. Popularity x \<ge> Popularity y) (Artists r)) \<and>
   (\<forall>r. returned (fst (SearchEvents se m clk a l arr)) = Some r \<longrightarrow>
        (if cachedEvents m (tGet clk) a '''' (effectiveLimit l) = None
         then upcomingFirst (tSort clk) (Events r)
         else \<exists>now \<in> set nows. upcomingFirst now (Events r))) \<and>
   (\<forall>r. returned (fst (SearchEventsByLocation se m clk ci co l arr)) = Some r \<longrightarrow>
        (if cachedEvents m (tGet clk) '''' ci (effectiveLimit l) = None
         then upcomingFirst (tSort clk) (Events r)
         else \<exists>now \<in> set nows. upcomingFirst now (Events r)))"
proof (intro conjI allI impI)
  assume sa: "sortSliceOk sa" and se: "sortSliceOk se" and reach: "reachableAt sa se nows m"
  {
    fix r
    assume "returned (fst (SearchArtists sa m clk q l arr)) = Some r"
    with reachableAt_reachable [OF reach] sa se have "byPopularity (Artists r)"
      by (rule SearchArtists_ordered)
    then show "sorted_wrt (\<lambda>x y. Popularity x \<ge> Popularity y) (Artists r)"
      by (simp add: byPopularity_def)
  }
  {
    fix r
    assume "returned (fst (SearchEvents se m clk a l arr)) = Some r"
    with reach se show "if cachedEvents m (tGet clk) a '''' (effectiveLimit l) = None
         then upcomingFirst (tSort clk) (Events r)
         else \<exists>now \<in> set nows. upcomingFirst now (Events r)"
      unfolding SearchEvents_def by (rule searchEventsKeyed_ordered)
  }
  {
    fix r
    assume "returned (fst (SearchEventsByLocation se m clk ci co l arr)) = Some r"
    with reach se show "if cachedEvents m (tGet clk) '''' ci (effectiveLimit l) = None
         then upcomingFirst (tSort clk) (Events r)
         else \<exists>now \<in> set nows. upcomingFirst now (Events r)"
      unfolding SearchEventsByLocation_def by (rule searchEventsKeyed_ordered)
  }
qed

text \<open>
  An example. An aggregator with a cache and the event source \<open>E\<close> is asked for the
  events of \<open>Blur\<close> at the instant 10, and \<open>E\<close> answers with events at the instants 5, 20
  and 15: the search returns them in the order 15, 20, 5 and stores that list. The same
  search at the instant 17 is answered from the cache, with the same list.
\<close>

lemma exAggregator_reachableAt: "reachableAt sa se [] (exAggregator c d)"
  unfolding exAggregator_def by (intro reachableAt.intros)

lemma exSearch_first:
  "SearchEvents insertionSort (exAggregator True False) (exClock 10) ''Blur'' 10 arr =
     (Return (aggregateEvents insertionSort (config (exAggregator True False)) (exClock 10) 10 arr)
        None,
      (exAggregator True False)\<lparr>cache := Some (SetEvents (NewAggregatorCache Hour)
         (tSet (exClock 10)) ''Blur'' '''' 10
         (aggregateEvents insertionSort (config (exAggregator True False)) (exClock 10) 10
            arr))\<rparr>)"
  by (simp add: SearchEvents_def searchEventsKeyed_def exAggregator_miss exAggregator_fields
      effectiveLimit_def noEventSources_def)

lemma exSearch_cached:
  "cachedEvents (snd (SearchEvents insertionSort (exAggregator True False) (exClock 10)
       ''Blur'' 10 arr)) (tGet (exClock 17)) ''Blur'' '''' (effectiveLimit 10) =
     Some (aggregateEvents insertionSort (config (exAggregator True False)) (exClock 10) 10 arr)"
  unfolding exSearch_first snd_conv
  by (simp add: cachedEvents_def GetEvents_def effectiveLimit_def After_def Add_def exClock_def
      exTime_def NewAggregatorCache_def SetEvents_def Hour_def Second_def)

lemma exSearch_again:
  "fst (SearchEvents insertionSort
      (snd (SearchEvents insertionSort (exAggregator True False) (exClock 10) ''Blur'' 10 arr))
      (exClock 17) ''Blur'' 10 arr') =
     Return (aggregateEvents insertionSort (config (exAggregator True False)) (exClock 10) 10 arr)
       None"
  unfolding SearchEvents_def [of _ _ "exClock 17"]
  by (simp add: searchEventsKeyed_hit [OF exSearch_cached])

lemma exSearch_events:
  "Events (aggregateEvents insertionSort (config (exAggregator c False)) (exClock 10) 10
      [exEvents ''E'' [exEvent ''Blur'' ''Roxy'' 5, exEvent ''Blur'' ''Roxy'' 20,
         exEvent ''Muse'' ''Roxy'' 15]]) =
     [exEvent ''Muse'' ''Roxy'' 15, exEvent ''Blur'' ''Roxy'' 20, exEvent ''Blur'' ''Roxy'' 5]"
  by (simp add: eval_events exAggregator_fields)

theorem results_are_ordered_witness:
  "returned (fst (SearchArtists insertionSort (exAggregator False True) (exClock 10) ''q'' 10
      [exArtists ''A'' [exArtist ''Muse'' 80, exArtist ''Radiohead'' 90],
       exArtists ''B'' [exArtist ''Blur'' 70]])) =
     Some (aggregateArtists insertionSort (config (exAggregator False True)) (exClock 10) 10
      [exArtists ''A'' [exArtist ''Muse'' 80, exArtist ''Radiohead'' 90],
       exArtists ''B'' [exArtist ''Blur'' 70]]) \<and>
   Artists (aggregateArtists insertionSort (config (exAggregator False True)) (exClock 10) 10
      [exArtists ''A'' [exArtist ''Muse'' 80, exArtist ''Radiohead'' 90],
       exArtists ''B'' [exArtist ''Blur'' 70]]) =
     [exArtist ''Radiohead'' 90, exArtist ''Muse'' 80, exArtist ''Blur'' 70] \<and>
   sorted_wrt (\<lambda>x y. Popularity x \<ge> Popularity y)
     [exArtist ''Radiohead'' 90, exArtist ''Muse'' 80, exArtist ''Blur'' 70] \<and>
   returned (fst (SearchEvents insertionSort (exAggregator True False) (exClock 10) ''Blur'' 10
      [exEvents ''E'' [exEvent ''Blur'' ''Roxy'' 5, exEvent ''Blur'' ''Roxy'' 20,
         exEvent ''Muse'' ''Roxy'' 15]])) =
     Some (aggregateEvents insertionSort (config (exAggregator True False)) (exClock 10) 10
      [exEvents ''E'' [exEvent ''Blur'' ''Roxy'' 5, exEvent ''Blur'' ''Roxy'' 20,
         exEvent ''Muse'' ''Roxy'' 15]]) \<and>
   returned (fst (SearchEvents insertionSort
      (snd (SearchEvents insertionSort (exAggregator True False) (exClock 10) ''Blur'' 10
        [exEvents ''E'' [exEvent ''Blur'' ''Roxy'' 5, exEvent ''Blur'' ''Roxy'' 20,
           exEvent ''Muse'' ''Roxy'' 15]]))
      (exClock 17) ''Blur'' 10 [])) =
     Some (aggregateEvents insertionSort (config (exAggregator True False)) (exClock 10) 10
      [exEvents ''E'' [exEvent ''Blur'' ''Roxy'' 5, exEvent ''Blur'' ''Roxy'' 20,
         exEvent ''Muse'' ''Roxy'' 15]]) \<and>
   Events (aggregateEvents insertionSort (config (exAggregator True False)) (exClock 10) 10
      [exEvents ''E'' [exEvent ''Blur'' ''Roxy'' 5, exEvent ''Blur'' ''Roxy'' 20,
         exEvent ''Muse'' ''Roxy'' 15]]) =
     [exEvent ''Muse'' ''Roxy'' 15, exEvent ''Blur'' ''Roxy'' 20, exEvent ''Blur'' ''Roxy'' 5] \<and>
   upcomingFirst (exTime 10)
     [exEvent ''Muse'' ''Roxy'' 15, exEvent ''Blur'' ''Roxy'' 20, exEvent ''Blur'' ''Roxy'' 5]"
proof -
  let ?arr = "[exArtists ''A'' [exArtist ''Muse'' 80, exArtist ''Radiohead'' 90],
       exArtists ''B'' [exArtist ''Blur'' 70]]"
  let ?ev = "[exEvents ''E'' [exEvent ''Blur'' ''Roxy'' 5, exEvent ''Blur'' ''Roxy'' 20,
         exEvent ''Muse'' ''Roxy'' 15]]"
  let ?m = "exAggregator True False"
  let ?m' = "snd (SearchEvents insertionSort ?m (exClock 10) ''Blur'' 10 ?ev)"
  let ?ra = "aggregateArtists insertionSort (config (exAggregator False True)) (exClock 10) 10 ?arr"
  let ?re = "aggregateEvents insertionSort (config ?m) (exClock 10) 10 ?ev"
  have ok: "sortSliceOk (insertionSort :: Artist sorter)" "sortSliceOk (insertionSort :: Event sorter)"
    by (rule insertionSort_ok)+
  have fa: "fst (SearchArtists insertionSort (exAggregator False True) (exClock 10) ''q'' 10 ?arr) =
      Return ?ra None"
    by (simp add: SearchArtists_def exAggregator_miss exAggregator_fields effectiveLimit_def)
  have va: "Artists ?ra = [exArtist ''Radiohead'' 90, exArtist ''Muse'' 80, exArtist ''Blur'' 70]"
    by (simp add: eval_artists exAggregator_fields)
  have fe: "fst (SearchEvents insertionSort ?m (exClock 10) ''Blur'' 10 ?ev) = Return ?re None"
    by (simp add: exSearch_first)
  have fe': "fst (SearchEvents insertionSort ?m' (exClock 17) ''Blur'' 10 []) = Return ?re None"
    by (rule exSearch_again)
  have ve: "Events ?re =
      [exEvent ''Muse'' ''Roxy'' 15, exEvent ''Blur'' ''Roxy'' 20, exEvent ''Blur'' ''Roxy'' 5]"
    by (rule exSearch_events)
  have arr: "eventArrivalsOk ?m ?ev"
    by (simp add: eventArrivalsOk_def exAggregator_fields exEvents_def)
  have "reachableAt insertionSort insertionSort
      (sortReadings ?m (exClock 10) ''Blur'' '''' 10
         (fst (SearchEvents insertionSort ?m (exClock 10) ''Blur'' 10 ?ev)) []) ?m'"
    using exAggregator_reachableAt arr by (rule at_events)
  moreover have "sortReadings ?m (exClock 10) ''Blur'' '''' 10
      (fst (SearchEvents insertionSort ?m (exClock 10) ''Blur'' 10 ?ev)) [] = [exTime 10]"
    unfolding fe by (simp add: sortReadings_def exAggregator_miss exClock_def)
  ultimately have at: "reachableAt insertionSort insertionSort [exTime 10] ?m'"
    by simp
  from results_are_ordered [OF ok exAggregator_reachableAt [of _ _ False True],
      where clk = "exClock 10" and q = "''q''" and l = 10 and arr = ?arr] fa va
  have sa: "sorted_wrt (\<lambda>x y. Popularity x \<ge> Popularity y)
      [exArtist ''Radiohead'' 90, exArtist ''Muse'' 80, exArtist ''Blur'' 70]"
    by simp
  from results_are_ordered [OF ok exAggregator_reachableAt [of _ _ True False],
      where clk = "exClock 10" and a = "''Blur''" and l = 10 and arr = ?ev] fe ve
  have se: "upcomingFirst (tSort (exClock 10))
      [exEvent ''Muse'' ''Roxy'' 15, exEvent ''Blur'' ''Roxy'' 20, exEvent ''Blur'' ''Roxy'' 5]"
    by (simp add: exAggregator_miss)
  from results_are_ordered [OF ok at,
      where clk = "exClock 17" and a = "''Blur''" and l = 10 and arr = "[]"] fe' ve
  have se': "upcomingFirst (exTime 10)
      [exEvent ''Muse'' ''Roxy'' 15, exEvent ''Blur'' ''Roxy'' 20, exEvent ''Blur'' ''Roxy'' 5]"
    by (simp add: exSearch_cached)
  from fa va sa fe fe' ve se se' show ?thesis
    by simp
qed

text \<open>
  The claim as it is written fails for a result that comes from the cache. In the
  example the search at the instant 17, all of whose clock readings are 17, returns the
  events at 15, 20 and 5 in this order: the event at 15, which is not after 17, comes
  before the event at 20, which is.
\<close>

theorem cached_events_order_counterexample:
  "sortSliceOk (insertionSort :: Artist sorter) \<and>
   sortSliceOk (insertionSort :: Event sorter) \<and>
   reachable insertionSort insertionSort
     (snd (SearchEvents insertionSort (exAggregator True False) (exClock 10) ''Blur'' 10
        [exEvents ''E'' [exEvent ''Blur'' ''Roxy'' 5, exEvent ''Blur'' ''Roxy'' 20,
           exEvent ''Muse'' ''Roxy'' 15]])) \<and>
   returned (fst (SearchEvents insertionSort
      (snd (SearchEvents insertionSort (exAggregator True False) (exClock 10) ''Blur'' 10
        [exEvents ''E'' [exEvent ''Blur'' ''Roxy'' 5, exEvent ''Blur'' ''Roxy'' 20,
           exEvent ''Muse'' ''Roxy'' 15]]))
      (exClock 17) ''Blur'' 10 [])) =
     Some (aggregateEvents insertionSort (config (exAggregator True False)) (exClock 10) 10
        [exEvents ''E'' [exEvent ''Blur'' ''Roxy'' 5, exEvent ''Blur'' ''Roxy'' 20,
           exEvent ''Muse'' ''Roxy'' 15]]) \<and>
   Events (aggregateEvents insertionSort (config (exAggregator True False)) (exClock 10) 10
      [exEvents ''E'' [exEvent ''Blur'' ''Roxy'' 5, exEvent ''Blur'' ''Roxy'' 20,
         exEvent ''Muse'' ''Roxy'' 15]]) =
     [exEvent ''Muse'' ''Roxy'' 15, exEvent ''Blur'' ''Roxy'' 20, exEvent ''Blur'' ''Roxy'' 5] \<and>
   \<not> upcomingFirst (exTime 17)
     [exEvent ''Muse'' ''Roxy'' 15, exEvent ''Blur'' ''Roxy'' 20, exEvent ''Blur'' ''Roxy'' 5] \<and>
   \<not> After (DateTime (exEvent ''Muse'' ''Roxy'' 15)) (exTime 17) \<and>
   After (DateTime (exEvent ''Blur'' ''Roxy'' 20)) (exTime 17) \<and>
   exClock 17 =
     \<lparr>tStart = exTime 17, tGet = exTime 17, tSort = exTime 17, tSince = exTime 17,
      tSet = exTime 17\<rparr>"
proof -
  let ?ev = "[exEvents ''E'' [exEvent ''Blur'' ''Roxy'' 5, exEvent ''Blur'' ''Roxy'' 20,
         exEvent ''Muse'' ''Roxy'' 15]]"
  let ?m = "exAggregator True False"
  let ?m' = "snd (SearchEvents insertionSort ?m (exClock 10) ''Blur'' 10 ?ev)"
  let ?re = "aggregateEvents insertionSort (config ?m) (exClock 10) 10 ?ev"
  have ok: "sortSliceOk (insertionSort :: Artist sorter)" "sortSliceOk (insertionSort :: Event sorter)"
    by (rule insertionSort_ok)+
  have arr: "eventArrivalsOk ?m ?ev"
    by (simp add: eventArrivalsOk_def exAggregator_fields exEvents_def)
  have reach: "reachable insertionSort insertionSort ?m'"
    using exAggregator_reachable arr by (rule reach_events)
  have fe': "returned (fst (SearchEvents insertionSort ?m' (exClock 17) ''Blur'' 10 [])) = Some ?re"
    by (simp add: exSearch_again)
  have ve: "Events ?re =
      [exEvent ''Muse'' ''Roxy'' 15, exEvent ''Blur'' ''Roxy'' 20, exEvent ''Blur'' ''Roxy'' 5]"
    by (rule exSearch_events)
  have no: "\<not> upcomingFirst (exTime 17)
      [exEvent ''Muse'' ''Roxy'' 15, exEvent ''Blur'' ''Roxy'' 20, exEvent ''Blur'' ''Roxy'' 5]"
    by (simp add: upcomingFirst_def After_def exEvent_def exTime_def)
  have t: "\<not> After (DateTime (exEvent ''Muse'' ''Roxy'' 15)) (exTime 17)"
    "After (DateTime (exEvent ''Blur'' ''Roxy'' 20)) (exTime 17)"
    by (simp_all add: After_def exEvent_def exTime_def)
  have c: "exClock 17 =
     \<lparr>tStart = exTime 17, tGet = exTime 17, tSort = exTime 17, tSince = exTime 17,
      tSet = exTime 17\<rparr>"
    by (simp add: exClock_def)
  from ok reach fe' ve no t c show ?thesis
    by (intro conjI)
qed

section \<open>Failures of sources\<close>

lemma SearchArtists_no_error: "fst (SearchArtists sa m clk q l arr) = Return r e \<Longrightarrow> e = None"
  by (cases rule: SearchArtists_cases [of m clk q l sa arr]) auto

lemma searchEventsKeyed_no_error:
  "fst (searchEventsKeyed se m clk a ci l arr) = Return r e \<Longrightarrow> e = None"
  by (cases rule: searchEventsKeyed_cases [of m clk a ci l se arr]) auto

lemma SearchArtists_returns:
  assumes "0 < MaxConcurrentRequests (config m)"
  shows "\<exists>r. fst (SearchArtists sa m clk q l arr) = Return r None"
proof (cases "cachedArtists m (tGet clk) q (effectiveLimit l)")
  case None
  from SearchArtists_miss [OF None assms] show ?thesis by simp
next
  case (Some r)
  from SearchArtists_hit [OF Some] show ?thesis by simp
qed

lemma searchEventsKeyed_returns:
  assumes "0 < MaxConcurrentRequests (config m)"
  shows "\<exists>r. fst (searchEventsKeyed se m clk a ci l arr) = Return r None"
proof (cases "cachedEvents m (tGet clk) a ci (effectiveLimit l)")
  case None
  from searchEventsKeyed_miss [OF None assms] show ?thesis by simp
next
  case (Some r)
  from searchEventsKeyed_hit [OF Some] show ?thesis by simp
qed

lemma DeduplicateArtists_Nil: "DeduplicateArtists [] = []"
  by (simp add: DeduplicateArtists_def)

lemma DeduplicateEvents_Nil: "DeduplicateEvents [] = []"
  by (simp add: DeduplicateEvents_def)

lemma processArtists_Nil: "sortSliceOk sa \<Longrightarrow> processArtists sa cfg lim [] = []"
  by (simp add: processArtists_def DeduplicateArtists_Nil sortSliceOk_Nil truncateTo_Nil)

lemma processEvents_Nil: "sortSliceOk se \<Longrightarrow> processEvents se cfg now lim [] = []"
  by (simp add: processEvents_def DeduplicateEvents_Nil sortSliceOk_Nil truncateTo_Nil)

lemma all_failed_filter:
  assumes "\<forall>x \<in> set arr. Error x \<noteq> None"
  shows "filter succeeded arr = []" "filter (\<lambda>r. \<not> succeeded r) arr = arr"
  using assms by (simp_all add: succeeded_def)

lemma aggregateArtists_all_failed:
  assumes sa: "sortSliceOk sa" and fail: "\<forall>x \<in> set arr. Error x \<noteq> None"
  shows "Artists (aggregateArtists sa cfg clk lim arr) = []"
    "Events (aggregateArtists sa cfg clk lim arr) = []"
    "Errors (aggregateArtists sa cfg clk lim arr) = map errorLine arr"
    "SourceStats (aggregateArtists sa cfg clk lim arr) = Map.empty"
  using sa
  by (simp_all add: aggregateArtists_fields all_failed_filter [OF fail] processArtists_Nil
      lastCount_def fun_eq_iff)

lemma aggregateEvents_all_failed:
  assumes se: "sortSliceOk se" and fail: "\<forall>x \<in> set arr. Error x \<noteq> None"
  shows "Events (aggregateEvents se cfg clk lim arr) = []"
    "Artists (aggregateEvents se cfg clk lim arr) = []"
    "Errors (aggregateEvents se cfg clk lim arr) = map errorLine arr"
    "SourceStats (aggregateEvents se cfg clk lim arr) = Map.empty"
  using se
  by (simp_all add: aggregateEvents_fields all_failed_filter [OF fail] processEvents_Nil
      lastCount_def fun_eq_iff)

lemma artistArrivals_none: "artistArrivalsOk m arr \<Longrightarrow> musicSources m = {} \<Longrightarrow> arr = []"
  by (simp add: artistArrivalsOk_def)

lemma count_list_all_zero:
  assumes "\<forall>n. count_list xs n = 0"
  shows "xs = []"
proof (cases xs)
  case Nil
  then show ?thesis .
next
  case (Cons x rest)
  from assms have "count_list xs x = 0" ..
  with Cons show ?thesis by simp
qed

lemma eventArrivals_none:
  assumes "eventArrivalsOk m arr" and "noEventSources m"
  shows "arr = []"
proof -
  have "\<forall>n. count_list (map SourceName arr) n = 0"
    using assms unfolding eventArrivalsOk_def noEventSources_def by auto
  then have "map SourceName arr = []"
    by (rule count_list_all_zero)
  then show ?thesis by simp
qed

lemma aggregateArtists_empty:
  "sortSliceOk sa \<Longrightarrow> emptyResults (aggregateArtists sa cfg clk lim [])"
  by (simp add: emptyResults_def aggregateArtists_fields processArtists_Nil)

lemma aggregateEvents_empty:
  "sortSliceOk se \<Longrightarrow> emptyResults (aggregateEvents se cfg clk lim [])"
  by (simp add: emptyResults_def aggregateEvents_fields processEvents_Nil)

lemma cache_empty_without_sources:
  assumes "reachable sa se m" and sa: "sortSliceOk sa" and se: "sortSliceOk se"
  shows "cacheAll (\<lambda>m k r. musicSources m = {} \<longrightarrow> emptyResults r)
           (\<lambda>m k r. noEventSources m \<longrightarrow> emptyResults r) m"
  using assms(1)
proof (rule cacheAll_reachable)
  fix m :: MegaAggregator and clk q l arr
  assume "artistArrivalsOk m arr"
  then show "musicSources m = {} \<longrightarrow>
      emptyResults (aggregateArtists sa (config m) clk (effectiveLimit l) arr)"
    using aggregateArtists_empty [OF sa] artistArrivals_none by blast
next
  fix m :: MegaAggregator and clk a ci l arr
  assume "eventArrivalsOk m arr"
  then show "noEventSources m \<longrightarrow>
      emptyResults (aggregateEvents se (config m) clk (effectiveLimit l) arr)"
    using aggregateEvents_empty [OF se] eventArrivals_none by blast
qed (auto simp: noEventSources_def RegisterMusicSource_def RegisterEventSource_def
    RegisterScraper_def)

lemma SearchArtists_no_sources:
  assumes reach: "reachable sa se m" and sa: "sortSliceOk sa" and se: "sortSliceOk se"
    and conc: "0 \<le> MaxConcurrentRequests (config m)"
    and none: "musicSources m = {}" and arr: "artistArrivalsOk m arr"
  shows "\<exists>r. fst (SearchArtists sa m clk q l arr) = Return r None \<and> emptyResults r"
proof (cases "cachedArtists m (tGet clk) q (effectiveLimit l)")
  case (Some r)
  with cacheAll_artist_hit [OF cache_empty_without_sources [OF reach sa se] Some] none
    SearchArtists_hit [OF Some, of sa arr]
  show ?thesis by simp
next
  case None
  have "arr = []"
    using arr none by (rule artistArrivals_none)
  with None conc none aggregateArtists_empty [OF sa] show ?thesis
    by (simp add: SearchArtists_def)
qed

lemma searchEventsKeyed_no_sources:
  assumes reach: "reachable sa se m" and sa: "sortSliceOk sa" and se: "sortSliceOk se"
    and conc: "0 \<le> MaxConcurrentRequests (config m)"
    and none: "noEventSources m" and arr: "eventArrivalsOk m arr"
  shows "\<exists>r. fst (searchEventsKeyed se m clk a ci l arr) = Return r None \<and> emptyResults r"
proof (cases "cachedEvents m (tGet clk) a ci (effectiveLimit l)")
  case (Some r)
  with cacheAll_event_hit [OF cache_empty_without_sources [OF reach sa se] Some] none
    searchEventsKeyed_hit [OF Some, of se arr]
  show ?thesis by simp
next
  case None
  have "arr = []"
    using arr none by (rule eventArrivals_none)
  with None conc none aggregateEvents_empty [OF se] show ?thesis
    by (simp add: searchEventsKeyed_def)
qed

lemma SearchArtists_all_failed:
  assumes sa: "sortSliceOk sa" and conc: "0 < MaxConcurrentRequests (config m)"
    and miss: "cachedArtists m (tGet clk) q (effectiveLimit l) = None"
    and fail: "\<forall>x \<in> set arr. Error x \<noteq> None"
  shows "\<exists>r. fst (SearchArtists sa m clk q l arr) = Return r None \<and>
           Artists r = [] \<and> Events r = [] \<and> SourceStats r = Map.empty \<and>
           Errors r = map (\<lambda>x. SourceName x @ '': '' @ the (Error x)) arr"
  using SearchArtists_miss [OF miss conc, of sa arr] aggregateArtists_all_failed [OF sa fail]
  by (simp add: errorLine_def)

lemma searchEventsKeyed_all_failed:
  assumes se: "sortSliceOk se" and conc: "0 < MaxConcurrentRequests (config m)"
    and miss: "cachedEvents m (tGet clk) a ci (effectiveLimit l) = None"
    and fail: "\<forall>x \<in> set arr. Error x \<noteq> None"
  shows "\<exists>r. fst (searchEventsKeyed se m clk a ci l arr) = Return r None \<and>
           Artists r = [] \<and> Events r = [] \<and> SourceStats r = Map.empty \<and>
           Errors r = map (\<lambda>x. SourceName x @ '': '' @ the (Error x)) arr"
  using searchEventsKeyed_miss [OF miss conc, of se arr] aggregateEvents_all_failed [OF se fail]
  by (simp add: errorLine_def)

text \<open>
  Claim C1, as the code has it. No search ever returns an error. With a positive
  \<open>MaxConcurrentRequests\<close> each of the three searches returns a results record and no
  error, whatever the sources answer. With a sorting function that meets the contract of
  \<open>sort.Slice\<close>: on an aggregator built by \<open>NewMegaAggregator\<close> and used through its
  operations, with a \<open>MaxConcurrentRequests\<close> that is not negative and no source
  registered, the search returns a record with no artists, no events and no errors; and
  a search that finds nothing in the cache and receives an error from every source
  returns a record with no artists, no events, no entry in \<open>sourceStats\<close>, and one line in
  the errors list for each source, in the order of arrival.
\<close>

theorem source_failures_never_abort:
  "(\<forall>r e. fst (SearchArtists sa m clk q l arr) = Return r e \<longrightarrow> e = None) \<and>
   (\<forall>r e. fst (SearchEvents se m clk a l arr) = Return r e \<longrightarrow> e = None) \<and>
   (\<forall>r e. fst (SearchEventsByLocation se m clk ci co l arr) = Return r e \<longrightarrow> e = None) \<and>
   (0 < MaxConcurrentRequests (config m) \<longrightarrow>
      (\<exists>r. fst (SearchArtists sa m clk q l arr) = Return r None) \<and>
      (\<exists>r. fst (SearchEvents se m clk a l arr) = Return r None) \<and>
      (\<exists>r. fst (SearchEventsByLocation se m clk ci co l arr) = Return r None)) \<and>
   (sortSliceOk sa \<longrightarrow> sortSliceOk se \<longrightarrow> reachable sa se m \<longrightarrow>
    0 \<le> MaxConcurrentRequests (config m) \<longrightarrow>
      (musicSources m = {} \<longrightarrow> artistArrivalsOk m arr \<longrightarrow>
         (\<exists>r. fst (SearchArtists sa m clk q l arr) = Return r None \<and>
              Artists r = [] \<and> Events r = [] \<and> Errors r = [])) \<and>
      (noEventSources m \<longrightarrow> eventArrivalsOk m arr \<longrightarrow>
         (\<exists>r. fst (SearchEvents se m clk a l arr) = Return r None \<and>
              Artists r = [] \<and> Events r = [] \<and> Errors r = []) \<and>
         (\<exists>r. fst (SearchEventsByLocation se m clk ci co l arr) = Return r None \<and>
              Artists r = [] \<and> Events r = [] \<and> Errors r = []))) \<and>
   (sortSliceOk sa \<longrightarrow> sortSliceOk se \<longrightarrow> 0 < MaxConcurrentRequests (config m) \<longrightarrow>
    (\<forall>x \<in> set arr. Error x \<noteq> None) \<longrightarrow>
      (cachedArtists m (tGet clk) q (effectiveLimit l) = None \<longrightarrow>
         (\<exists>r. fst (SearchArtists sa m clk q l arr) = Return r None \<and>
              Artists r = [] \<and> Events r = [] \<and> SourceStats r = Map.empty \<and>
              Errors r = map (\<lambda>x. SourceName x @ '': '' @ the (Error x)) arr)) \<and>
      (cachedEvents m (tGet clk) a '''' (effectiveLimit l) = None \<longrightarrow>
         (\<exists>r. fst (SearchEvents se m clk a l arr) = Return r None \<and>
              Artists r = [] \<and> Events r = [] \<and> SourceStats r = Map.empty \<and>
              Errors r = map (\<lambda>x. SourceName x @ '': '' @ the (Error x)) arr)) \<and>
      (cachedEvents m (tGet clk) '''' ci (effectiveLimit l) = None \<longrightarrow>
         (\<exists>r. fst (SearchEventsByLocation se m clk ci co l arr) = Return r None \<and>
              Artists r = [] \<and> Events r = [] \<and> SourceStats r = Map.empty \<and>
              Errors r = map (\<lambda>x. SourceName x @ '': '' @ the (Error x)) arr)))"
proof (intro conjI allI impI)
  fix r e
  show "fst (SearchArtists sa m clk q l arr) = Return r e \<Longrightarrow> e = None"
    by (rule SearchArtists_no_error)
  show "fst (SearchEvents se m clk a l arr) = Return r e \<Longrightarrow> e = None"
    unfolding SearchEvents_def by (rule searchEventsKeyed_no_error)
  show "fst (SearchEventsByLocation se m clk ci co l arr) = Return r e \<Longrightarrow> e = None"
    unfolding SearchEventsByLocation_def by (rule searchEventsKeyed_no_error)
next
  assume conc: "0 < MaxConcurrentRequests (config m)"
  show "\<exists>r. fst (SearchArtists sa m clk q l arr) = Return r None"
    using conc by (rule SearchArtists_returns)
  show "\<exists>r. fst (SearchEvents se m clk a l arr) = Return r None"
    unfolding SearchEvents_def using conc by (rule searchEventsKeyed_returns)
  show "\<exists>r. fst (SearchEventsByLocation se m clk ci co l arr) = Return r None"
    unfolding SearchEventsByLocation_def using conc by (rule searchEventsKeyed_returns)
next
  assume h: "sortSliceOk sa" "sortSliceOk se" "reachable sa se m"
    "0 \<le> MaxConcurrentRequests (config m)"
  {
    assume "musicSources m = {}" "artistArrivalsOk m arr"
    with h show "\<exists>r. fst (SearchArtists sa m clk q l arr) = Return r None \<and>
        Artists r = [] \<and> Events r = [] \<and> Errors r = []"
      using SearchArtists_no_sources [of sa se m arr clk q l] by (simp add: emptyResults_def)
  }
  {
    assume n: "noEventSources m" "eventArrivalsOk m arr"
    with h show "\<exists>r. fst (SearchEvents se m clk a l arr) = Return r None \<and>
        Artists r = [] \<and> Events r = [] \<and> Errors r = []"
      using searchEventsKeyed_no_sources [of sa se m arr clk a "''''" l]
      by (simp add: emptyResults_def SearchEvents_def)
    from h n show "\<exists>r. fst (SearchEventsByLocation se m clk ci co l arr) = Return r None \<and>
        Artists r = [] \<and> Events r = [] \<and> Errors r = []"
      using searchEventsKeyed_no_sources [of sa se m arr clk "''''" ci l]
      by (simp add: emptyResults_def SearchEventsByLocation_def)
  }
next
  assume h: "sortSliceOk sa" "sortSliceOk se" "0 < MaxConcurrentRequests (config m)"
    "\<forall>x \<in> set arr. Error x \<noteq> None"
  {
    assume "cachedArtists m (tGet clk) q (effectiveLimit l) = None"
    with h show "\<exists>r. fst (SearchArtists sa m clk q l arr) = Return r None \<and>
        Artists r = [] \<and> Events r = [] \<and> SourceStats r = Map.empty \<and>
        Errors r = map (\<lambda>x. SourceName x @ '': '' @ the (Error x)) arr"
      by (intro SearchArtists_all_failed)
  }
  {
    assume "cachedEvents m (tGet clk) a '''' (effectiveLimit l) = None"
    with h show "\<exists>r. fst (SearchEvents se m clk a l arr) = Return r None \<and>
        Artists r = [] \<and> Events r = [] \<and> SourceStats r = Map.empty \<and>
        Errors r = map (\<lambda>x. SourceName x @ '': '' @ the (Error x)) arr"
      unfolding SearchEvents_def by (intro searchEventsKeyed_all_failed)
  }
  {
    assume "cachedEvents m (tGet clk) '''' ci (effectiveLimit l) = None"
    with h show "\<exists>r. fst (SearchEventsByLocation se m clk ci co l arr) = Return r None \<and>
        Artists r = [] \<and> Events r = [] \<and> SourceStats r = Map.empty \<and>
        Errors r = map (\<lambda>x. SourceName x @ '': '' @ the (Error x)) arr"
      unfolding SearchEventsByLocation_def by (intro searchEventsKeyed_all_failed)
  }
qed

theorem source_failures_never_abort_witness:
  "(\<exists>r. fst (SearchArtists insertionSort (NewMegaAggregator (exConfig True True)) (exClock 0)
          ''q'' 10 []) = Return r None \<and>
        Artists r = [] \<and> Events r = [] \<and> Errors r = []) \<and>
   (\<exists>r. fst (SearchArtists insertionSort (exAggregator True True) (exClock 0) ''q'' 10
          [exFailure ''A'' ''timeout'', exFailure ''B'' ''status 500'']) = Return r None \<and>
        Artists r = [] \<and> Events r = [] \<and> SourceStats r = Map.empty \<and>
        Errors r = [''A: timeout'', ''B: status 500''])"
proof -
  let ?m0 = "NewMegaAggregator (exConfig True True)"
  have ok: "sortSliceOk (insertionSort :: Artist sorter)" "sortSliceOk (insertionSort :: Event sorter)"
    by (rule insertionSort_ok)+
  have r0: "reachable insertionSort insertionSort ?m0"
    by (rule reach_new)
  have c0: "0 \<le> MaxConcurrentRequests (config ?m0)" "musicSources ?m0 = {}"
    "artistArrivalsOk ?m0 []"
    by (simp_all add: NewMegaAggregator_def withDefaults_def exConfig_def artistArrivalsOk_def)
  have c1: "0 < MaxConcurrentRequests (config (exAggregator True True))"
    "\<forall>x \<in> set [exFailure ''A'' ''timeout'', exFailure ''B'' ''status 500'']. Error x \<noteq> None"
    "cachedArtists (exAggregator True True) (tGet (exClock 0)) ''q'' (effectiveLimit 10) = None"
    by (simp_all add: exAggregator_fields exAggregator_miss exFailure_def)
  from source_failures_never_abort [where sa = insertionSort and se = insertionSort and m = ?m0
      and clk = "exClock 0" and q = "''q''" and l = 10 and arr = "[]"] ok r0 c0
  have first: "\<exists>r. fst (SearchArtists insertionSort ?m0 (exClock 0) ''q'' 10 []) = Return r None \<and>
      Artists r = [] \<and> Events r = [] \<and> Errors r = []"
    by blast
  from source_failures_never_abort [where sa = insertionSort and se = insertionSort
      and m = "exAggregator True True" and clk = "exClock 0" and q = "''q''" and l = 10
      and arr = "[exFailure ''A'' ''timeout'', exFailure ''B'' ''status 500'']"] ok c1
  have "\<exists>r. fst (SearchArtists insertionSort (exAggregator True True) (exClock 0) ''q'' 10
          [exFailure ''A'' ''timeout'', exFailure ''B'' ''status 500'']) = Return r None \<and>
        Artists r = [] \<and> Events r = [] \<and> SourceStats r = Map.empty \<and>
        Errors r = map (\<lambda>x. SourceName x @ '': '' @ the (Error x))
          [exFailure ''A'' ''timeout'', exFailure ''B'' ''status 500'']"
    by blast
  then have second: "\<exists>r. fst (SearchArtists insertionSort (exAggregator True True) (exClock 0) ''q'' 10
          [exFailure ''A'' ''timeout'', exFailure ''B'' ''status 500'']) = Return r None \<and>
        Artists r = [] \<and> Events r = [] \<and> SourceStats r = Map.empty \<and>
        Errors r = [''A: timeout'', ''B: status 500'']"
    by (simp add: exFailure_def)
  from first second show ?thesis ..
qed

text \<open>
  The claim as it is written fails for an aggregator made with a negative
  \<open>MaxConcurrentRequests\<close>: with no source registered and nothing in the cache, the search
  panics when it makes the semaphore.
\<close>

theorem negative_concurrency_counterexample:
  "musicSources (NewMegaAggregator ((exConfig False True)\<lparr>MaxConcurrentRequests := - 1\<rparr>)) = {} \<and>
   SearchArtists insertionSort
     (NewMegaAggregator ((exConfig False True)\<lparr>MaxConcurrentRequests := - 1\<rparr>)) (exClock 0)
     ''q'' 10 [] =
   (Panic ''makechan: size out of range'',
    NewMegaAggregator ((exConfig False True)\<lparr>MaxConcurrentRequests := - 1\<rparr>))"
  by (simp add: SearchArtists_def cachedArtists_def NewMegaAggregator_def withDefaults_def
      exConfig_def)

section \<open>Which record survives deduplication\<close>

lemma DeduplicateArtists_pair:
  assumes "normalizeArtistName (Name x) = normalizeArtistName (Name y)"
  shows "DeduplicateArtists [x, y] = [x]"
  using assms by (simp add: DeduplicateArtists_def seenGet_def)

lemma truncateTo_single: "0 < lim \<Longrightarrow> truncateTo lim [x] = [x]"
  by (simp add: truncateTo_def)

lemma aggregateArtists_same_key_pair:
  assumes sa: "sortSliceOk sa" and dedup: "DeduplicationEnabled cfg" and lim: "0 < lim"
    and key: "normalizeArtistName (Name x) = normalizeArtistName (Name y)"
    and first: "Error r1 = None" "ResultArtists r1 = [x]"
    and second: "Error r2 = None" "ResultArtists r2 = [y]"
  shows "Artists (aggregateArtists sa cfg clk lim [r1, r2]) = [x]"
proof -
  have "processArtists sa cfg lim [x, y] = [x]"
    using dedup lim
    by (simp add: processArtists_def DeduplicateArtists_pair [OF key] sortSliceOk_single [OF sa]
        truncateTo_single)
  then show ?thesis
    using first second by (simp add: aggregateArtists_fields succeeded_def)
qed

lemma SearchArtists_same_key_pair:
  assumes sa: "sortSliceOk sa" and dedup: "DeduplicationEnabled (config m)"
    and miss: "cachedArtists m (tGet clk) q (effectiveLimit l) = None"
    and key: "normalizeArtistName (Name x) = normalizeArtistName (Name y)"
    and first: "Error r1 = None" "ResultArtists r1 = [x]"
    and second: "Error r2 = None" "ResultArtists r2 = [y]"
  shows "\<forall>r. returned (fst (SearchArtists sa m clk q l [r1, r2])) = Some r \<longrightarrow> Artists r = [x]"
proof (intro allI impI)
  fix r
  assume "returned (fst (SearchArtists sa m clk q l [r1, r2])) = Some r"
  with miss have "r = aggregateArtists sa (config m) clk (effectiveLimit l) [r1, r2]"
    by (rule SearchArtists_miss_returned(1))
  then show "Artists r = [x]"
    using aggregateArtists_same_key_pair [OF sa dedup effectiveLimit_pos key first second]
    by simp
qed

lemma radiohead_keys:
  "normalizeArtistName ''Radiohead'' = ''radiohead''"
  "normalizeArtistName ''radiohead.'' = ''radiohead''"
  by (simp_all add: eval_names)

text \<open>
  Claim C2, as the code has it. With deduplication on, a search that finds nothing in
  the cache and receives the artist \<open>{name: "Radiohead", popularity: 90}\<close> from source A
  and \<open>{name: "radiohead.", popularity: 70}\<close> from source B returns exactly one artist,
  and it is the record of the result that is received first: \<open>Radiohead\<close> with popularity
  90 when the result of A arrives first, \<open>radiohead.\<close> with popularity 70 when the result
  of B does. The search does return, in both orders, when \<open>MaxConcurrentRequests\<close> is
  positive.
\<close>

theorem first_received_record_survives:
  "sortSliceOk sa \<Longrightarrow> DeduplicationEnabled (config m) \<Longrightarrow>
   cachedArtists m (tGet clk) q (effectiveLimit l) = None \<Longrightarrow>
   Name x = ''Radiohead'' \<Longrightarrow> Popularity x = 90 \<Longrightarrow>
   Name y = ''radiohead.'' \<Longrightarrow> Popularity y = 70 \<Longrightarrow>
   Error rA = None \<Longrightarrow> ResultArtists rA = [x] \<Longrightarrow>
   Error rB = None \<Longrightarrow> ResultArtists rB = [y] \<Longrightarrow>
   (\<forall>r. returned (fst (SearchArtists sa m clk q l [rA, rB])) = Some r \<longrightarrow> Artists r = [x]) \<and>
   (\<forall>r. returned (fst (SearchArtists sa m clk q l [rB, rA])) = Some r \<longrightarrow> Artists r = [y]) \<and>
   (0 < MaxConcurrentRequests (config m) \<longrightarrow>
      (\<exists>r. fst (SearchArtists sa m clk q l [rA, rB]) = Return r None) \<and>
      (\<exists>r. fst (SearchArtists sa m clk q l [rB, rA]) = Return r None))"
proof (intro conjI impI)
  assume h: "sortSliceOk sa" "DeduplicationEnabled (config m)"
    "cachedArtists m (tGet clk) q (effectiveLimit l) = None"
  assume n: "Name x = ''Radiohead''" "Name y = ''radiohead.''"
  assume a: "Error rA = None" "ResultArtists rA = [x]"
  assume b: "Error rB = None" "ResultArtists rB = [y]"
  have k: "normalizeArtistName (Name x) = normalizeArtistName (Name y)"
    by (simp add: n radiohead_keys)
  show "\<forall>r. returned (fst (SearchArtists sa m clk q l [rA, rB])) = Some r \<longrightarrow> Artists r = [x]"
    using h k a b by (rule SearchArtists_same_key_pair)
  show "\<forall>r. returned (fst (SearchArtists sa m clk q l [rB, rA])) = Some r \<longrightarrow> Artists r = [y]"
    using h k [symmetric] b a by (rule SearchArtists_same_key_pair)
  assume conc: "0 < MaxConcurrentRequests (config m)"
  show "\<exists>r. fst (SearchArtists sa m clk q l [rA, rB]) = Return r None"
    using SearchArtists_miss [OF h(3) conc, of sa "[rA, rB]"] by simp
  show "\<exists>r. fst (SearchArtists sa m clk q l [rB, rA]) = Return r None"
    using SearchArtists_miss [OF h(3) conc, of sa "[rB, rA]"] by simp
qed

theorem first_received_record_survives_witness:
  "(\<exists>r. fst (SearchArtists insertionSort (exAggregator False True) (exClock 0) ''Radiohead'' 10
          [exArtists ''A'' [exArtist ''Radiohead'' 90],
           exArtists ''B'' [exArtist ''radiohead.'' 70]]) = Return r None \<and>
        Artists r = [exArtist ''Radiohead'' 90]) \<and>
   (\<exists>r. fst (SearchArtists insertionSort (exAggregator False True) (exClock 0) ''Radiohead'' 10
          [exArtists ''B'' [exArtist ''radiohead.'' 70],
           exArtists ''A'' [exArtist ''Radiohead'' 90]]) = Return r None \<and>
        Artists r = [exArtist ''radiohead.'' 70])"
proof -
  have "(\<forall>r. returned (fst (SearchArtists insertionSort (exAggregator False True) (exClock 0)
          ''Radiohead'' 10
          [exArtists ''A'' [exArtist ''Radiohead'' 90],
           exArtists ''B'' [exArtist ''radiohead.'' 70]])) = Some r \<longrightarrow>
        Artists r = [exArtist ''Radiohead'' 90]) \<and>
     (\<forall>r. returned (fst (SearchArtists insertionSort (exAggregator False True) (exClock 0)
          ''Radiohead'' 10
          [exArtists ''B'' [exArtist ''radiohead.'' 70],
           exArtists ''A'' [exArtist ''Radiohead'' 90]])) = Some r \<longrightarrow>
        Artists r = [exArtist ''radiohead.'' 70]) \<and>
     (0 < MaxConcurrentRequests (config (exAggregator False True)) \<longrightarrow>
        (\<exists>r. fst (SearchArtists insertionSort (exAggregator False True) (exClock 0)
          ''Radiohead'' 10
          [exArtists ''A'' [exArtist ''Radiohead'' 90],
           exArtists ''B'' [exArtist ''radiohead.'' 70]]) = Return r None) \<and>
        (\<exists>r. fst (SearchArtists insertionSort (exAggregator False True) (exClock 0)
          ''Radiohead'' 10
          [exArtists ''B'' [exArtist ''radiohead.'' 70],
           exArtists ''A'' [exArtist ''Radiohead'' 90]]) = Return r None))"
    by (rule first_received_record_survives [OF insertionSort_ok])
      (simp_all add: exAggregator_fields exAggregator_miss exArtist_def exArtists_def)
  then show ?thesis
    by (auto simp: exAggregator_fields)
qed

text \<open>
  The claim as it is written fails when the result of B is received before that of A:
  the one artist returned is \<open>radiohead.\<close> with popularity 70.
\<close>

theorem radiohead_order_counterexample:
  "map_option (\<lambda>r. map (\<lambda>a. (Name a, Popularity a)) (Artists r))
     (returned (fst (SearchArtists insertionSort (exAggregator False True) (exClock 0)
        ''Radiohead'' 10
        [exArtists ''B'' [exArtist ''radiohead.'' 70],
         exArtists ''A'' [exArtist ''Radiohead'' 90]]))) =
   Some [(''radiohead.'', 70)]"
proof -
  have "Artists (aggregateArtists insertionSort (config (exAggregator False True)) (exClock 0) 10
      [exArtists ''B'' [exArtist ''radiohead.'' 70],
       exArtists ''A'' [exArtist ''Radiohead'' 90]]) = [exArtist ''radiohead.'' 70]"
    by (simp add: aggregateArtists_fields succeeded_def processArtists_def exAggregator_fields
        DeduplicateArtists_def seenGet_def radiohead_keys insertionSort_def truncateTo_def
        exArtist_def exArtists_def)
  then show ?thesis
    by (simp add: SearchArtists_def exAggregator_miss exAggregator_fields effectiveLimit_def
        exArtist_def)
qed

end
